(* ===== verification/Prelude.thy ===== *)
theory Prelude
  imports Main "HOL-Library.List_Lexorder" "HOL-Library.Char_ord" "HOL-Library.Product_Lexorder"
begin

text \<open>
  Shared vocabulary of the development: Go values that every package uses (instants, durations,
  error chains), the collections of simplification rules the components fill, and the generic
  facts on sorted lists and association lists that the component proofs rest on.

  A Go \<open>time.Time\<close> is modelled by the instant it denotes, in nanoseconds since the Unix epoch
  (comparisons in the code are by instant, never by location); a \<open>time.Duration\<close> is a number of
  nanoseconds.  Go strings are byte strings, so they are \<^typ>\<open>string\<close> (a \<^typ>\<open>char\<close> is a byte).
  Strings are compared bytewise, which is the lexicographic order of
  \<^verbatim>\<open>HOL-Library.List_Lexorder\<close> over \<^verbatim>\<open>HOL-Library.Char_ord\<close>.
\<close>

section \<open>Collections\<close>

named_theorems go_defs \<open>definitions of constants and small helpers, unfolded freely\<close>
named_theorems go_splits \<open>case splits of the model's datatypes\<close>

section \<open>Instants and durations\<close>

type_synonym time = int
type_synonym duration = int

text \<open>The zero \<open>time.Time\<close> is 1 January of year 1, 00:00 UTC.\<close>

definition zero_time :: time where
  [go_defs]: "zero_time = - 62135596800 * 1000000000"

definition Second :: duration where
  [go_defs]: "Second = 1000000000"

definition Minute :: duration where
  [go_defs]: "Minute = 60 * Second"

section \<open>Errors\<close>

text \<open>
  Go errors as values.  \<open>Sentinel\<close> is a package-level \<open>errors.New\<close> variable (its identity and its
  text), \<open>ErrorString\<close> an error built on the spot, \<open>ErrorFmt\<close> an \<open>fmt.Errorf\<close> without a \<open>%w\<close> verb
  (its format and its operands), \<open>Errorf\<close> one with a \<open>%w\<close> verb, which wraps an error, and \<open>Joined\<close>
  is \<open>errors.Join\<close>.  The rendering of a format is left to \<open>fmt\<close>: no decision of the program
  depends on the text of an error.
\<close>

datatype go_error =
    Sentinel string string
  | ErrorString string
  | ErrorFmt string "string list"
  | Errorf string "string list" go_error
  | Joined "go_error list"

fun errors_Is :: "go_error \<Rightarrow> go_error \<Rightarrow> bool" where
  "errors_Is (Sentinel i m) target = (Sentinel i m = target)"
| "errors_Is (ErrorString m) target = False"
| "errors_Is (ErrorFmt f args) target = False"
| "errors_Is (Errorf f args e) target = errors_Is e target"
| "errors_Is (Joined es) target = (\<exists>e \<in> set es. errors_Is e target)"

text \<open>Results of fallible Go functions: \<open>Inl\<close> carries the error.\<close>

type_synonym 'a result = "go_error + 'a"

lemmas result_splits [go_splits] = sum.splits option.splits if_splits

section \<open>Lists\<close>

lemma dropWhile_eq_filter_sorted:
  assumes "sorted_wrt R xs" and "\<And>x y. R x y \<Longrightarrow> P x \<Longrightarrow> P y"
  shows "dropWhile (\<lambda>x. \<not> P x) xs = filter P xs"
  using assms(1)
proof (induction xs)
  case Nil
  then show ?case by simp
next
  case (Cons x xs)
  show ?case
  proof (cases "P x")
    case True
    with Cons.prems assms(2) have "filter P xs = xs"
      by (auto simp: filter_id_conv)
    with True show ?thesis by simp
  next
    case False
    with Cons show ?thesis by simp
  qed
qed

lemma sorted_wrt_filter_I: "sorted_wrt R xs \<Longrightarrow> sorted_wrt R (filter P xs)"
  by (rule sorted_wrt_filter)

text \<open>A list with pairwise different keys, sorted by key, is strictly sorted by key.\<close>

lemma strict_sorted_sort_key:
  fixes f :: "'a \<Rightarrow> 'k::linorder"
  assumes "distinct (map f xs)"
  shows "sorted_wrt (\<lambda>x y. f x < f y) (sort_key f xs)"
proof -
  have "distinct (map f (sort_key f xs))"
    using assms by (simp add: distinct_map)
  moreover have "sorted (map f (sort_key f xs))" by simp
  ultimately have "sorted_wrt (<) (map f (sort_key f xs))"
    by (simp add: strict_sorted_iff)
  then show ?thesis by (simp add: sorted_wrt_map)
qed

text \<open>Strictly sorted lists are determined by their elements.\<close>

lemma strict_sorted_unique:
  fixes f :: "'a \<Rightarrow> 'k::linorder"
  assumes "sorted_wrt (\<lambda>x y. f x < f y) xs" and "sorted_wrt (\<lambda>x y. f x < f y) ys"
    and "set xs = set ys"
  shows "xs = ys"
  using assms
proof (induction xs arbitrary: ys)
  case Nil
  then show ?case by simp
next
  case (Cons x xs)
  then obtain y ys' where ys: "ys = y # ys'" by (cases ys) auto
  have "x = y"
  proof (rule ccontr)
    assume "x \<noteq> y"
    with Cons.prems ys have "x \<in> set ys'" and "y \<in> set xs" by auto
    with Cons.prems ys have "f y < f x" and "f x < f y" by auto
    then show False by simp
  qed
  moreover have "x \<notin> set xs" and "y \<notin> set ys'"
    using Cons.prems ys by auto
  ultimately have "set xs = set ys'"
    using Cons.prems(3) ys by auto
  with Cons ys \<open>x = y\<close> show ?case by auto
qed

section \<open>Association lists as Go maps\<close>

text \<open>
  A Go map is an association list with distinct keys; the order of the list stands for the
  unspecified iteration order.  \<open>aput\<close> is the assignment \<open>m[k] = v\<close>, \<open>adel\<close> the built-in
  \<open>delete\<close>, and \<open>map_of\<close> the lookup.
\<close>

fun aput :: "'k \<Rightarrow> 'v \<Rightarrow> ('k \<times> 'v) list \<Rightarrow> ('k \<times> 'v) list" where
  "aput k v [] = [(k, v)]"
| "aput k v ((k', v') # m) = (if k = k' then (k, v) # m else (k', v') # aput k v m)"

definition adel :: "'k \<Rightarrow> ('k \<times> 'v) list \<Rightarrow> ('k \<times> 'v) list" where
  "adel k m = filter (\<lambda>(k', _). k' \<noteq> k) m"

lemma map_of_aput [simp]: "map_of (aput k v m) = (map_of m)(k \<mapsto> v)"
  by (induction k v m rule: aput.induct) (auto simp: fun_eq_iff)

lemma keys_aput: "fst ` set (aput k v m) = insert k (fst ` set m)"
  by (induction k v m rule: aput.induct) auto

lemma distinct_keys_aput [simp]: "distinct (map fst m) \<Longrightarrow> distinct (map fst (aput k v m))"
proof (induction k v m rule: aput.induct)
  case (2 k v k' v' m)
  then show ?case using keys_aput [of k v m] by (auto simp: image_iff)
qed simp

lemma map_of_adel [simp]: "map_of (adel k m) = (map_of m)(k := None)"
  by (induction m) (auto simp: adel_def fun_eq_iff)

lemma set_map_snd_alist: "distinct (map fst m) \<Longrightarrow> snd ` set m = ran (map_of m)"
  by (simp add: ran_distinct)

end
