(* ===== verification/GoStrings.thy ===== *)
theory GoStrings
  imports Prelude
begin

text \<open>
  The parts of Go's \<open>strings\<close>, \<open>unicode/utf8\<close>, \<open>unicode\<close> and \<open>strconv\<close> packages the program calls:
  \<open>strings.TrimSpace\<close>, \<open>strings.Cut\<close>, \<open>strings.CutPrefix\<close>, \<open>strings.ToUpper\<close> of a one-byte
  string, \<open>utf8.RuneCountInString\<close> and \<open>strconv.Itoa\<close> / the \<open>%d\<close> verb.  Strings are byte strings,
  so UTF-8 is decoded here exactly as Go does it: an ill-formed sequence is one rune of one byte.
\<close>

section \<open>UTF-8\<close>

abbreviation byte :: "char \<Rightarrow> nat" where
  "byte c \<equiv> of_char c"

definition cont :: "char \<Rightarrow> bool" where
  "cont c \<longleftrightarrow> 128 \<le> byte c \<and> byte c \<le> 191"

definition between :: "nat \<Rightarrow> nat \<Rightarrow> char \<Rightarrow> bool" where
  "between lo hi c \<longleftrightarrow> lo \<le> byte c \<and> byte c \<le> hi"

text \<open>The accepted range of the second byte, by first byte (the table of \<open>unicode/utf8\<close>).\<close>

definition second_ok :: "char \<Rightarrow> char \<Rightarrow> bool" where
  "second_ok c0 c1 =
     (if byte c0 = 224 then between 160 191 c1
      else if byte c0 = 237 then between 128 159 c1
      else if byte c0 = 240 then between 144 191 c1
      else if byte c0 = 244 then between 128 143 c1
      else cont c1)"

text \<open>Width in bytes of the first rune of a string; an invalid sequence has width one.\<close>

fun rune_width :: "string \<Rightarrow> nat" where
  "rune_width (c0 # c1 # c2 # c3 # s) =
     (if between 194 223 c0 \<and> second_ok c0 c1 then 2
      else if between 224 239 c0 \<and> second_ok c0 c1 \<and> cont c2 then 3
      else if between 240 244 c0 \<and> second_ok c0 c1 \<and> cont c2 \<and> cont c3 then 4
      else 1)"
| "rune_width [c0, c1, c2] =
     (if between 194 223 c0 \<and> second_ok c0 c1 then 2
      else if between 224 239 c0 \<and> second_ok c0 c1 \<and> cont c2 then 3 else 1)"
| "rune_width [c0, c1] = (if between 194 223 c0 \<and> second_ok c0 c1 then 2 else 1)"
| "rune_width [c0] = 1"
| "rune_width [] = 0"

lemma rune_width_bounds: "s \<noteq> [] \<Longrightarrow> 1 \<le> rune_width s \<and> rune_width s \<le> 4"
  by (induction s rule: rune_width.induct) auto

function RuneCountInString :: "string \<Rightarrow> nat" where
  "RuneCountInString s =
     (if s = [] then 0 else Suc (RuneCountInString (drop (rune_width s) s)))"
  by pat_completeness auto
termination
proof (relation "measure length")
  fix s :: string
  assume "s \<noteq> []"
  with rune_width_bounds [of s] show "(drop (rune_width s) s, s) \<in> measure length"
    by auto
qed simp

declare RuneCountInString.simps [simp del]

lemma RuneCountInString_Nil [simp]: "RuneCountInString [] = 0"
  by (simp add: RuneCountInString.simps)

lemma RuneCountInString_eq_0 [simp]: "RuneCountInString s = 0 \<longleftrightarrow> s = []"
  by (subst RuneCountInString.simps) simp

text \<open>A rune takes between one and four bytes.\<close>

lemma RuneCountInString_le_length: "RuneCountInString s \<le> length s"
proof (induction s rule: RuneCountInString.induct)
  case (1 s)
  show ?case
  proof (cases "s = []")
    case False
    with "1.IH" have "RuneCountInString (drop (rune_width s) s) \<le> length s - rune_width s"
      by simp
    moreover have "1 \<le> rune_width s" and "0 < length s"
      using rune_width_bounds [of s] False by auto
    ultimately show ?thesis
      using False by (subst RuneCountInString.simps) arith
  qed simp
qed

lemma length_le_RuneCountInString: "length s \<le> 4 * RuneCountInString s"
proof (induction s rule: RuneCountInString.induct)
  case (1 s)
  show ?case
  proof (cases "s = []")
    case False
    with "1.IH" have "length s - rune_width s \<le> 4 * RuneCountInString (drop (rune_width s) s)"
      by simp
    moreover have "rune_width s \<le> 4"
      using rune_width_bounds [of s] False by auto
    ultimately show ?thesis
      using False by (subst RuneCountInString.simps) simp
  qed simp
qed

section \<open>strings.TrimSpace\<close>

text \<open>
  The UTF-8 encodings of the runes \<open>unicode.IsSpace\<close> accepts: tab, newline, vertical tab, form
  feed, carriage return, space, U+0085, U+00A0, U+1680, U+2000 to U+200A, U+2028, U+2029, U+202F,
  U+205F and U+3000.  A string starts (ends) with a white-space rune exactly when one of these is
  a prefix (suffix) of it, because they are well-formed and continuation bytes never start a rune.
\<close>

definition space_encodings :: "string list" where
  "space_encodings =
     map (\<lambda>n. [char_of n]) [9, 10, 11, 12, 13, 32::nat]
     @ [[CHR 0xC2, CHR 0x85], [CHR 0xC2, CHR 0xA0], [CHR 0xE1, CHR 0x9A, CHR 0x80]]
     @ map (\<lambda>n. [CHR 0xE2, CHR 0x80, char_of n]) ([128..<139] @ [168, 169, 175::nat])
     @ [[CHR 0xE2, CHR 0x81, CHR 0x9F], [CHR 0xE3, CHR 0x80, CHR 0x80]]"

definition starts_with :: "string \<Rightarrow> string \<Rightarrow> bool" where
  "starts_with p s \<longleftrightarrow> take (length p) s = p"

text \<open>Strip leading members of a set of non-empty strings, as long as there is one.\<close>

function strip :: "string list \<Rightarrow> string \<Rightarrow> string" where
  "strip encs s =
     (case find (\<lambda>e. e \<noteq> [] \<and> starts_with e s) encs of
        None \<Rightarrow> s
      | Some e \<Rightarrow> strip encs (drop (length e) s))"
  by pat_completeness auto
termination
proof (relation "measure (\<lambda>(encs, s). length s)")
  fix encs s e
  assume "find (\<lambda>e. e \<noteq> [] \<and> starts_with e s) encs = Some e"
  then have "e \<noteq> []" and "starts_with e s" by (auto simp: find_Some_iff)
  then have "s \<noteq> []" by (auto simp: starts_with_def)
  with \<open>e \<noteq> []\<close> show "((encs, drop (length e) s), (encs, s)) \<in> measure (\<lambda>(encs, s). length s)"
    by (auto simp: neq_Nil_conv)
qed simp

declare strip.simps [simp del]

definition TrimLeft :: "string \<Rightarrow> string" where
  "TrimLeft s = strip space_encodings s"

definition TrimRight :: "string \<Rightarrow> string" where
  "TrimRight s = rev (strip (map rev space_encodings) (rev s))"

definition TrimSpace :: "string \<Rightarrow> string" where
  "TrimSpace s = TrimRight (TrimLeft s)"

definition no_prefix :: "string list \<Rightarrow> string \<Rightarrow> bool" where
  "no_prefix encs s \<longleftrightarrow> list_all (\<lambda>e. e = [] \<or> \<not> starts_with e s) encs"

definition trimmed :: "string \<Rightarrow> bool" where
  "trimmed s \<longleftrightarrow> no_prefix space_encodings s \<and> no_prefix (map rev space_encodings) (rev s)"

lemma no_prefix_strip: "no_prefix encs (strip encs s)"
proof (induction encs s rule: strip.induct)
  case (1 encs s)
  show ?case
  proof (cases "find (\<lambda>e. e \<noteq> [] \<and> starts_with e s) encs")
    case None
    moreover from None have "no_prefix encs s"
      by (auto simp: no_prefix_def find_None_iff list_all_iff)
    ultimately show ?thesis by (subst strip.simps) simp
  next
    case (Some e)
    with "1.IH" show ?thesis by (subst strip.simps) simp
  qed
qed

lemma strip_id: "no_prefix encs s \<Longrightarrow> strip encs s = s"
proof -
  assume "no_prefix encs s"
  then have "find (\<lambda>e. e \<noteq> [] \<and> starts_with e s) encs = None"
    by (auto simp: no_prefix_def find_None_iff list_all_iff)
  then show ?thesis by (subst strip.simps) simp
qed

lemma strip_is_drop: "\<exists>n. strip encs s = drop n s"
proof (induction encs s rule: strip.induct)
  case (1 encs s)
  show ?case
  proof (cases "find (\<lambda>e. e \<noteq> [] \<and> starts_with e s) encs")
    case None
    then have "strip encs s = drop 0 s" by (subst strip.simps) simp
    then show ?thesis by blast
  next
    case (Some e)
    with "1.IH" obtain n where "strip encs (drop (length e) s) = drop n (drop (length e) s)"
      by blast
    with Some have "strip encs s = drop (n + length e) s"
      by (subst strip.simps) simp
    then show ?thesis by blast
  qed
qed

lemma no_prefix_take: "no_prefix encs s \<Longrightarrow> no_prefix encs (take n s)"
  unfolding no_prefix_def list_all_iff starts_with_def
  by (metis length_take min_def take_all take_take le_cases)

lemma TrimRight_is_take: "\<exists>n. TrimRight s = take n s"
proof -
  obtain n where "strip (map rev space_encodings) (rev s) = drop n (rev s)"
    using strip_is_drop by blast
  then have "TrimRight s = take (length s - n) s"
    by (simp add: TrimRight_def rev_drop)
  then show ?thesis by blast
qed

text \<open>The result of \<open>TrimSpace\<close> neither starts nor ends with white space ...\<close>

lemma trimmed_TrimSpace [simp]: "trimmed (TrimSpace s)"
proof -
  obtain n where "TrimSpace s = take n (TrimLeft s)"
    unfolding TrimSpace_def using TrimRight_is_take by blast
  moreover have "no_prefix space_encodings (TrimLeft s)"
    by (simp add: TrimLeft_def no_prefix_strip)
  ultimately have "no_prefix space_encodings (TrimSpace s)"
    by (simp add: no_prefix_take)
  moreover have "no_prefix (map rev space_encodings) (rev (TrimSpace s))"
    by (simp add: TrimSpace_def TrimRight_def no_prefix_strip)
  ultimately show ?thesis by (simp add: trimmed_def)
qed

text \<open>... a string that already has this shape is left alone, so trimming is idempotent ...\<close>

lemma TrimSpace_trimmed: "trimmed s \<Longrightarrow> TrimSpace s = s"
  by (simp add: trimmed_def TrimSpace_def TrimLeft_def TrimRight_def strip_id)

lemma TrimSpace_idem [simp]: "TrimSpace (TrimSpace s) = TrimSpace s"
  by (rule TrimSpace_trimmed) simp

text \<open>... and the result is a contiguous part of the input.\<close>

lemma TrimSpace_substring: "\<exists>i n. TrimSpace s = take n (drop i s)"
proof -
  obtain i where "TrimLeft s = drop i s" unfolding TrimLeft_def using strip_is_drop by blast
  moreover obtain n where "TrimSpace s = take n (TrimLeft s)"
    unfolding TrimSpace_def using TrimRight_is_take by blast
  ultimately show ?thesis by metis
qed

lemma length_TrimSpace_le: "length (TrimSpace s) \<le> length s"
  using TrimSpace_substring [of s] by auto

lemma TrimSpace_Nil [simp]: "TrimSpace [] = []"
  using length_TrimSpace_le [of "[]"] by simp

section \<open>strings.Cut, strings.CutPrefix, strings.ToUpper\<close>

text \<open>\<open>strings.Cut(s, sep)\<close> for a one-byte separator: the parts around its first occurrence.\<close>

definition Cut :: "string \<Rightarrow> char \<Rightarrow> string \<times> string \<times> bool" where
  "Cut s sep =
     (if sep \<in> set s
      then (takeWhile (\<lambda>c. c \<noteq> sep) s, tl (dropWhile (\<lambda>c. c \<noteq> sep) s), True)
      else (s, [], False))"

definition CutPrefix :: "string \<Rightarrow> string \<Rightarrow> string \<times> bool" where
  "CutPrefix s p = (if starts_with p s then (drop (length p) s, True) else (s, False))"

lemma CutPrefix_found: "CutPrefix s p = (rest, True) \<longleftrightarrow> s = p @ rest"
  by (auto simp: CutPrefix_def starts_with_def) (metis append_take_drop_id)

lemma Cut_found: "Cut s sep = (a, b, True) \<longleftrightarrow> s = a @ sep # b \<and> sep \<notin> set a"
proof
  assume "Cut s sep = (a, b, True)"
  then have *: "sep \<in> set s" "a = takeWhile (\<lambda>c. c \<noteq> sep) s" "b = tl (dropWhile (\<lambda>c. c \<noteq> sep) s)"
    by (auto simp: Cut_def split: if_splits)
  then have "dropWhile (\<lambda>c. c \<noteq> sep) s \<noteq> []" by (auto simp: dropWhile_eq_Nil_conv)
  then have "dropWhile (\<lambda>c. c \<noteq> sep) s = sep # b"
    using * hd_dropWhile [of "\<lambda>c. c \<noteq> sep" s] by (cases "dropWhile (\<lambda>c. c \<noteq> sep) s") auto
  with * show "s = a @ sep # b \<and> sep \<notin> set a"
    by (metis set_takeWhileD takeWhile_dropWhile_id)
next
  assume "s = a @ sep # b \<and> sep \<notin> set a"
  then have "takeWhile (\<lambda>c. c \<noteq> sep) s = a" and "dropWhile (\<lambda>c. c \<noteq> sep) s = sep # b"
    by (auto simp: takeWhile_append dropWhile_append)
  with \<open>s = a @ sep # b \<and> sep \<notin> set a\<close> show "Cut s sep = (a, b, True)"
    by (simp add: Cut_def)
qed

text \<open>
  \<open>strings.ToUpper\<close> of a string of one byte: an ASCII letter is mapped, any other ASCII byte kept;
  a byte above 127 alone is ill-formed UTF-8, which \<open>strings.Map\<close> replaces by U+FFFD.
\<close>

definition ToUpper1 :: "char \<Rightarrow> string" where
  "ToUpper1 c =
     (if between 97 122 c then [char_of (byte c - 32)]
      else if byte c < 128 then [c]
      else [CHR 0xEF, CHR 0xBF, CHR 0xBD])"

section \<open>Decimal numbers\<close>

lemma char_of_digits [simp]:
  "char_of (48::nat) = CHR ''0''" "char_of (49::nat) = CHR ''1''" "char_of (50::nat) = CHR ''2''"
  "char_of (51::nat) = CHR ''3''" "char_of (52::nat) = CHR ''4''" "char_of (53::nat) = CHR ''5''"
  "char_of (54::nat) = CHR ''6''" "char_of (55::nat) = CHR ''7''" "char_of (56::nat) = CHR ''8''"
  "char_of (57::nat) = CHR ''9''"
  by (simp_all add: char_of_def bit_0)

text \<open>\<open>strconv.Itoa\<close> and the \<open>%d\<close> verb.\<close>

fun digits_of :: "nat \<Rightarrow> string" where
  "digits_of n = (if n < 10 then [char_of (48 + n)] else digits_of (n div 10) @ [char_of (48 + n mod 10)])"

declare digits_of.simps [simp del]

definition Itoa :: "int \<Rightarrow> string" where
  "Itoa i = (if i < 0 then CHR ''-'' # digits_of (nat (- i)) else digits_of (nat i))"

fun of_digits :: "nat \<Rightarrow> string \<Rightarrow> nat" where
  "of_digits acc [] = acc"
| "of_digits acc (c # cs) = of_digits (10 * acc + (byte c - 48)) cs"

lemma of_digits_append: "of_digits acc (xs @ ys) = of_digits (of_digits acc xs) ys"
  by (induction xs arbitrary: acc) auto

lemma of_digits_digits_of: "of_digits 0 (digits_of n) = n"
proof (induction n rule: digits_of.induct)
  case (1 n)
  show ?case
  proof (cases "n < 10")
    case True
    then show ?thesis by (subst digits_of.simps) simp
  next
    case False
    with "1.IH" have "of_digits 0 (digits_of (n div 10)) = n div 10" by simp
    moreover have "n mod 10 < 10" by simp
    ultimately show ?thesis
      using False by (subst digits_of.simps) (simp add: of_digits_append)
  qed
qed

lemma digits_of_inj: "digits_of m = digits_of n \<longleftrightarrow> m = n"
  by (metis of_digits_digits_of)

lemma digits_of_digit: "c \<in> set (digits_of n) \<Longrightarrow> between 48 57 c"
proof (induction n rule: digits_of.induct)
  case (1 n)
  show ?case
  proof (cases "n < 10")
    case True
    with "1.prems" have "c = char_of (48 + n)" by (subst (asm) digits_of.simps) simp
    with True show ?thesis by (simp add: between_def)
  next
    case False
    have "n mod 10 < 10" by simp
    moreover have "c \<in> set (digits_of (n div 10)) \<or> c = char_of (48 + n mod 10)"
      using "1.prems" False by (subst (asm) digits_of.simps) auto
    ultimately show ?thesis
      using "1.IH" False by (auto simp: between_def)
  qed
qed

lemma digits_of_nonempty [simp]: "digits_of n \<noteq> []"
  by (subst digits_of.simps) simp

end
