(* ===== verification/Todo.thy ===== *)
theory Todo
  imports GoStrings
begin

text \<open>
  The core domain of \<open>internal/todo/todo.go\<close>: the \<open>Todo\<close> entity, its lifecycle status and its two
  transitions \<open>NewTodo\<close> and \<open>Complete\<close>, with the well-formedness invariant they establish and
  preserve.  \<open>Status\<close> is a Go string type, so an unrecognised status is representable and
  \<open>Valid\<close> is a real check.
\<close>

section \<open>The entity\<close>

type_synonym status = string

definition StatusOpen :: status where
  [go_defs]: "StatusOpen = ''open''"

definition StatusCompleted :: status where
  [go_defs]: "StatusCompleted = ''completed''"

definition Valid :: "status \<Rightarrow> bool" where
  "Valid s \<longleftrightarrow> s = StatusOpen \<or> s = StatusCompleted"

definition maxTitleLength :: nat where
  [go_defs]: "maxTitleLength = 200"

definition ErrInvalidTitle :: go_error where
  [go_defs]: "ErrInvalidTitle = Sentinel ''todo.ErrInvalidTitle'' ''invalid todo title''"

definition ErrNotFound :: go_error where
  [go_defs]: "ErrNotFound = Sentinel ''todo.ErrNotFound'' ''todo not found''"

record todo =
  ID :: string
  Title :: string
  Status :: status
  CreatedAt :: time
  CompletedAt :: "time option"

definition NewTodo :: "string \<Rightarrow> string \<Rightarrow> time \<Rightarrow> todo result" where
  "NewTodo i title now =
     (let trimmed_title = TrimSpace title in
      if trimmed_title = [] then Inl (Errorf ''%w: title must not be empty'' [] ErrInvalidTitle)
      else if RuneCountInString trimmed_title > maxTitleLength then
        Inl (Errorf ''%w: title exceeds %d characters'' [digits_of maxTitleLength] ErrInvalidTitle)
      else Inr \<lparr>ID = i, Title = trimmed_title, Status = StatusOpen, CreatedAt = now, CompletedAt = None\<rparr>)"

definition Complete :: "todo \<Rightarrow> time \<Rightarrow> todo" where
  "Complete t now =
     (if Status t = StatusCompleted then t
      else t\<lparr>Status := StatusCompleted, CompletedAt := Some now\<rparr>)"

section \<open>The invariant\<close>

text \<open>
  A title is usable when it is trimmed, not empty and at most 200 runes long; a todo is
  well-formed when in addition it is either open without a completion time or completed with one.
\<close>

definition title_ok :: "string \<Rightarrow> bool" where
  "title_ok s \<longleftrightarrow> trimmed s \<and> s \<noteq> [] \<and> RuneCountInString s \<le> maxTitleLength"

definition todo_wf :: "todo \<Rightarrow> bool" where
  "todo_wf t \<longleftrightarrow> title_ok (Title t)
     \<and> (Status t = StatusOpen \<and> CompletedAt t = None
        \<or> Status t = StatusCompleted \<and> CompletedAt t \<noteq> None)"

lemma status_distinct [simp]: "StatusOpen \<noteq> StatusCompleted" "StatusCompleted \<noteq> StatusOpen"
  by (simp_all add: go_defs)

lemma sentinel_distinct [simp]:
  "ErrInvalidTitle \<noteq> ErrNotFound" "ErrNotFound \<noteq> ErrInvalidTitle"
  by (simp_all add: go_defs)

lemma errors_Is_todo [simp]:
  "errors_Is ErrInvalidTitle e \<longleftrightarrow> ErrInvalidTitle = e"
  "errors_Is ErrNotFound e \<longleftrightarrow> ErrNotFound = e"
  by (simp_all add: go_defs)

lemma NewTodo_cases:
  obtains (empty) "TrimSpace title = []" "NewTodo i title now = Inl (Errorf ''%w: title must not be empty'' [] ErrInvalidTitle)"
  | (long) "TrimSpace title \<noteq> []" "RuneCountInString (TrimSpace title) > maxTitleLength"
      "NewTodo i title now = Inl (Errorf ''%w: title exceeds %d characters'' [digits_of maxTitleLength] ErrInvalidTitle)"
  | (ok) "title_ok (TrimSpace title)"
      "NewTodo i title now = Inr \<lparr>ID = i, Title = TrimSpace title, Status = StatusOpen,
         CreatedAt = now, CompletedAt = None\<rparr>"
  by (cases "TrimSpace title = []"; cases "RuneCountInString (TrimSpace title) > maxTitleLength")
     (auto simp: NewTodo_def title_ok_def Let_def)

lemma NewTodo_wf: "NewTodo i title now = Inr t \<Longrightarrow> todo_wf t \<and> ID t = i \<and> CreatedAt t = now \<and> Status t = StatusOpen"
  by (cases rule: NewTodo_cases [of title i now]) (auto simp: todo_wf_def)

lemma Complete_wf: "todo_wf t \<Longrightarrow> todo_wf (Complete t now)"
  by (auto simp: Complete_def todo_wf_def)

lemma Complete_simps [simp]:
  "ID (Complete t now) = ID t" "Title (Complete t now) = Title t"
  "CreatedAt (Complete t now) = CreatedAt t" "Status (Complete t now) = StatusCompleted"
  by (auto simp: Complete_def)

lemma todo_wf_Valid: "todo_wf t \<Longrightarrow> Valid (Status t)"
  by (auto simp: todo_wf_def Valid_def)

section \<open>Properties\<close>

text \<open>
  \<open>NewTodo\<close> accepts a title exactly when its trimmed form is non-empty and at most 200 runes
  long (hence at most 800 bytes); the todo it then returns is open, carries the given id and
  instant and the trimmed title, and is well-formed.  Every rejection is an \<open>ErrInvalidTitle\<close>.
\<close>

lemma NewTodo_spec:
  "case NewTodo i title now of
     Inr t \<Rightarrow> TrimSpace title \<noteq> [] \<and> RuneCountInString (TrimSpace title) \<le> 200
       \<and> todo_wf t \<and> length (Title t) \<le> 800
       \<and> t = \<lparr>ID = i, Title = TrimSpace title, Status = StatusOpen, CreatedAt = now, CompletedAt = None\<rparr>
   | Inl e \<Rightarrow> errors_Is e ErrInvalidTitle
       \<and> (TrimSpace title = [] \<or> RuneCountInString (TrimSpace title) > 200)"
proof (cases rule: NewTodo_cases [of title i now])
  case ok
  moreover have "length (TrimSpace title) \<le> 800"
    using ok(1) length_le_RuneCountInString [of "TrimSpace title"]
    by (simp add: title_ok_def go_defs)
  ultimately show ?thesis by (simp add: title_ok_def todo_wf_def maxTitleLength_def)
qed (simp_all add: maxTitleLength_def)

text \<open>
  Completing a todo is idempotent and keeps the first completion time.
\<close>

lemma Complete_idempotent:
  "Complete (Complete t now) later = Complete t now
   \<and> Status (Complete t now) = StatusCompleted
   \<and> ID (Complete t now) = ID t \<and> Title (Complete t now) = Title t
   \<and> CreatedAt (Complete t now) = CreatedAt t
   \<and> CompletedAt (Complete t now) = (if Status t = StatusCompleted then CompletedAt t else Some now)"
  by (auto simp: Complete_def)

end
