(* ===== verification/Keyset.thy ===== *)
theory Keyset
  imports Prelude
begin

text \<open>
  Keyset pagination in the abstract: a strictly sorted list is cut into pages by resuming strictly
  after the key of the last element of the previous page.  \<open>keyset_page\<close> is the reference
  definition the two repositories are proved to implement; \<open>keyset_walk\<close> is a client that follows
  the cursors to the end.
\<close>

definition window :: "('a \<Rightarrow> 'k::linorder) \<Rightarrow> 'k option \<Rightarrow> 'a list \<Rightarrow> 'a list" where
  "window key c xs = (case c of None \<Rightarrow> xs | Some k \<Rightarrow> filter (\<lambda>x. k < key x) xs)"

definition keyset_page :: "('a \<Rightarrow> 'k::linorder) \<Rightarrow> nat \<Rightarrow> 'k option \<Rightarrow> 'a list \<Rightarrow> 'a list \<times> 'k option" where
  "keyset_page key n c xs =
     (let w = window key c xs
      in (take n w, if n < length w then Some (key (w ! (n - 1))) else None))"

text \<open>Insertion sort by a strict comparison, as \<open>sort.Slice\<close> is given one.\<close>

fun insort_by :: "('a \<Rightarrow> 'a \<Rightarrow> bool) \<Rightarrow> 'a \<Rightarrow> 'a list \<Rightarrow> 'a list" where
  "insort_by lt x [] = [x]"
| "insort_by lt x (y # ys) = (if lt y x then y # insort_by lt x ys else x # y # ys)"

fun sort_by :: "('a \<Rightarrow> 'a \<Rightarrow> bool) \<Rightarrow> 'a list \<Rightarrow> 'a list" where
  "sort_by lt [] = []"
| "sort_by lt (x # xs) = insort_by lt x (sort_by lt xs)"

lemma sort_by_eq_sort_key:
  fixes key :: "'a \<Rightarrow> 'k::linorder"
  assumes "\<And>x y. lt x y \<longleftrightarrow> key x < key y"
  shows "sort_by lt xs = sort_key key xs"
proof -
  have "insort_by lt x ys = insort_key key x ys" for x ys
    by (induction ys) (auto simp: assms not_less)
  then show ?thesis by (induction xs) auto
qed

fun keyset_walk :: "('a \<Rightarrow> 'k::linorder) \<Rightarrow> nat \<Rightarrow> nat \<Rightarrow> 'k option \<Rightarrow> 'a list \<Rightarrow> 'a list list option" where
  "keyset_walk key n 0 c xs = None"
| "keyset_walk key n (Suc fuel) c xs =
     (case keyset_page key n c xs of
        (p, None) \<Rightarrow> Some [p]
      | (p, Some k) \<Rightarrow> map_option (Cons p) (keyset_walk key n fuel (Some k) xs))"

abbreviation strictly_sorted :: "('a \<Rightarrow> 'k::linorder) \<Rightarrow> 'a list \<Rightarrow> bool" where
  "strictly_sorted key \<equiv> sorted_wrt (\<lambda>x y. key x < key y)"

lemma strictly_sorted_window: "strictly_sorted key xs \<Longrightarrow> strictly_sorted key (window key c xs)"
  by (simp add: window_def sorted_wrt_filter_I split: option.split)

lemma strictly_sorted_distinct: "strictly_sorted key xs \<Longrightarrow> distinct xs"
  by (induction xs) auto

lemma filter_after_nth:
  assumes "strictly_sorted key w" and "i < length w"
  shows "filter (\<lambda>x. key (w ! i) < key x) w = drop (Suc i) w"
proof -
  let ?P = "\<lambda>x. key (w ! i) < key x"
  have "filter ?P (take (Suc i) w) = []"
  proof -
    have "\<not> ?P x" if "x \<in> set (take (Suc i) w)" for x
    proof -
      from that obtain j where "j \<le> i" "x = w ! j" "j < length w"
        by (auto simp: in_set_conv_nth less_Suc_eq_le)
      with assms show ?thesis
        using sorted_wrt_nth_less [OF assms(1), of j i] by (cases "j = i") auto
    qed
    then show ?thesis by (simp add: filter_empty_conv)
  qed
  moreover have "filter ?P (drop (Suc i) w) = drop (Suc i) w"
  proof -
    have "?P x" if "x \<in> set (drop (Suc i) w)" for x
    proof -
      from that obtain j where "x = w ! (Suc i + j)" "Suc i + j < length w"
        by (auto simp: in_set_conv_nth)
      with assms show ?thesis
        using sorted_wrt_nth_less [OF assms(1), of i "Suc i + j"] by simp
    qed
    then show ?thesis by (simp add: filter_id_conv)
  qed
  ultimately show ?thesis
    by (metis append_Nil append_take_drop_id filter_append)
qed

text \<open>Resuming at the cursor of a page yields exactly what the page left out.\<close>

lemma window_next:
  assumes "strictly_sorted key xs" and "0 < n" and "n < length (window key c xs)"
  shows "window key (Some (key (window key c xs ! (n - 1)))) xs = drop n (window key c xs)"
proof -
  let ?w = "window key c xs"
  let ?k = "key (?w ! (n - 1))"
  have mem: "?w ! (n - 1) \<in> set ?w" using assms by simp
  have "filter (\<lambda>x. ?k < key x) xs = filter (\<lambda>x. ?k < key x) ?w"
    using mem by (cases c) (auto simp: window_def intro!: filter_cong)
  also have "\<dots> = drop n ?w"
    using filter_after_nth [OF strictly_sorted_window [OF assms(1)], of "n - 1" c] assms by simp
  finally show ?thesis by (simp add: window_def)
qed

lemma keyset_page_length: "keyset_page key n c xs = (p, k) \<Longrightarrow> length p \<le> n"
  by (auto simp: keyset_page_def Let_def)

text \<open>
  Following the cursors terminates and visits every element after the starting position exactly
  once and in order, in pages of at most \<open>n\<close> elements; one unit of fuel per element is enough.
\<close>

lemma keyset_walk_complete:
  assumes "strictly_sorted key xs" and "0 < n" and "length (window key c xs) < fuel"
  shows "\<exists>ps. keyset_walk key n fuel c xs = Some ps
              \<and> concat ps = window key c xs \<and> (\<forall>p \<in> set ps. length p \<le> n)"
  using assms(3)
proof (induction fuel arbitrary: c)
  case 0
  then show ?case by simp
next
  case (Suc fuel)
  let ?w = "window key c xs"
  show ?case
  proof (cases "n < length ?w")
    case False
    then show ?thesis by (simp add: keyset_page_def Let_def)
  next
    case True
    let ?k = "key (?w ! (n - 1))"
    have next_w: "window key (Some ?k) xs = drop n ?w"
      using window_next [OF assms(1,2) True] .
    with True assms(2) Suc.prems have "length (window key (Some ?k) xs) < fuel" by simp
    from Suc.IH [OF this] obtain ps where
      ps: "keyset_walk key n fuel (Some ?k) xs = Some ps" "concat ps = drop n ?w"
        "\<forall>p \<in> set ps. length p \<le> n"
      using next_w by auto
    with True show ?thesis
      by (auto simp: keyset_page_def Let_def)
  qed
qed

end
