(* ===== verification/TodoPort.thy ===== *)
theory TodoPort
  imports Todo Keyset
begin

text \<open>
  The outbound port of the domain: the pagination values of \<open>internal/todo/page.go\<close>, the
  \<open>Repository\<close> interface of \<open>internal/todo/ports.go\<close> as a record of operations over an abstract
  store, and the contract of that interface as the locale \<open>todo_repository\<close>.
\<close>

section \<open>Pages\<close>

definition DefaultPageSize :: int where
  [go_defs]: "DefaultPageSize = 20"

definition MaxPageSize :: int where
  [go_defs]: "MaxPageSize = 100"

definition ErrInvalidCursor :: go_error where
  [go_defs]: "ErrInvalidCursor = Sentinel ''todo.ErrInvalidCursor'' ''invalid todo cursor''"

record cursor =
  cur_CreatedAt :: time
  cur_ID :: string

record page_query =
  Limit :: int
  After :: "cursor option"

record page_result =
  Todos :: "todo list"
  Next :: "cursor option"

section \<open>The interface\<close>

text \<open>
  An implementation keeps a state of some type \<open>'s\<close> that every call threads through; reads thread
  it too, because a call on a real backend may consume a failure of that backend.
\<close>

record 's repository =
  Save :: "todo \<Rightarrow> 's \<Rightarrow> go_error option \<times> 's"
  FindByID :: "string \<Rightarrow> 's \<Rightarrow> todo result \<times> 's"
  List :: "page_query \<Rightarrow> 's \<Rightarrow> page_result result \<times> 's"

text \<open>
  A backend failure is any error that is none of the domain's sentinels, so that the layers above
  translate it to an internal error.
\<close>

definition backend_failure :: "go_error \<Rightarrow> bool" where
  "backend_failure e \<longleftrightarrow>
     \<not> errors_Is e ErrNotFound \<and> \<not> errors_Is e ErrInvalidTitle \<and> \<not> errors_Is e ErrInvalidCursor"

lemma ErrInvalidCursor_distinct [simp]:
  "ErrInvalidCursor \<noteq> ErrNotFound" "ErrNotFound \<noteq> ErrInvalidCursor"
  "ErrInvalidCursor \<noteq> ErrInvalidTitle" "ErrInvalidTitle \<noteq> ErrInvalidCursor"
  by (simp_all add: go_defs)

lemma errors_Is_ErrInvalidCursor [simp]: "errors_Is ErrInvalidCursor e \<longleftrightarrow> ErrInvalidCursor = e"
  by (simp add: go_defs)

lemma backend_failure_simps [simp]:
  "\<not> backend_failure ErrNotFound" "\<not> backend_failure ErrInvalidTitle" "\<not> backend_failure ErrInvalidCursor"
  "backend_failure (ErrorString m)" "backend_failure (ErrorFmt f args)"
  "backend_failure (Errorf f args e) = backend_failure e"
  by (simp_all add: backend_failure_def)

section \<open>The contract\<close>

text \<open>
  The reference behaviour of \<open>List\<close>: the todos of the store sorted by \<open>(created at, position of the
  id)\<close>, cut by keyset pagination.  \<open>pos\<close> maps an id to its position in the store's id order (\<open>None\<close>
  when the id is not one the store can hold) and \<open>ts\<close> is the resolution the store keeps instants at.
\<close>

definition rank :: "(string \<Rightarrow> 'i option) \<Rightarrow> todo \<Rightarrow> time \<times> 'i" where
  "rank pos t = (CreatedAt t, the (pos (ID t)))"

definition cursor_of :: "todo \<Rightarrow> cursor" where
  "cursor_of t = \<lparr>cur_CreatedAt = CreatedAt t, cur_ID = ID t\<rparr>"

definition cursor_rank :: "(string \<Rightarrow> 'i option) \<Rightarrow> (time \<Rightarrow> time) \<Rightarrow> cursor \<Rightarrow> time \<times> 'i" where
  "cursor_rank pos ts c = (ts (cur_CreatedAt c), the (pos (cur_ID c)))"

definition list_spec :: "(string \<Rightarrow> 'i::linorder option) \<Rightarrow> (time \<Rightarrow> time) \<Rightarrow> page_query \<Rightarrow> todo list \<Rightarrow> page_result" where
  "list_spec pos ts q xs =
     (case keyset_page (rank pos) (nat (Limit q)) (map_option (cursor_rank pos ts) (After q)) xs of
        (ys, None) \<Rightarrow> \<lparr>Todos = ys, Next = None\<rparr>
      | (ys, Some _) \<Rightarrow> \<lparr>Todos = ys, Next = Some (cursor_of (last ys))\<rparr>)"

text \<open>
  A client that follows the cursors \<open>List\<close> returns, with a page size and a bound on the number of
  pages; \<open>None\<close> is running out of that bound, and an error of a page ends the walk.
\<close>

fun repo_walk :: "(page_query \<Rightarrow> 's \<Rightarrow> page_result result \<times> 's) \<Rightarrow> int \<Rightarrow> nat \<Rightarrow> cursor option \<Rightarrow> 's
    \<Rightarrow> (todo list list result option) \<times> 's" where
  "repo_walk list_op n 0 c s = (None, s)"
| "repo_walk list_op n (Suc fuel) c s =
     (case list_op \<lparr>Limit = n, After = c\<rparr> s of
        (Inl e, s') \<Rightarrow> (Some (Inl e), s')
      | (Inr p, s') \<Rightarrow>
          (case Next p of
             None \<Rightarrow> (Some (Inr [Todos p]), s')
           | Some c' \<Rightarrow>
               (case repo_walk list_op n fuel (Some c') s' of
                  (Some (Inr ps), s'') \<Rightarrow> (Some (Inr (Todos p # ps)), s'')
                | r \<Rightarrow> r)))"

text \<open>
  What an implementation promises.  \<open>contents\<close> is the abstract store, indexed by id position;
  \<open>listing\<close> enumerates it in list order; \<open>stored\<close> is what is kept of a saved todo and \<open>storable\<close>
  which todos can be kept; \<open>healthy\<close> states do not fail.  A failed \<open>Save\<close> may or may not have taken
  effect (a lost connection does not tell), and a failure is never mistaken for a domain error.
\<close>

locale todo_repository =
  fixes R :: "'s repository"
    and inv :: "'s \<Rightarrow> bool"
    and healthy :: "'s \<Rightarrow> bool"
    and contents :: "'s \<Rightarrow> ('i::linorder \<rightharpoonup> todo)"
    and listing :: "'s \<Rightarrow> todo list"
    and pos :: "string \<Rightarrow> 'i option"
    and ts :: "time \<Rightarrow> time"
    and stored :: "todo \<Rightarrow> todo"
    and storable :: "todo \<Rightarrow> bool"
  assumes contents_pos: "inv s \<Longrightarrow> contents s i = Some t \<Longrightarrow> pos (ID t) = Some i \<and> ts (CreatedAt t) = CreatedAt t"
    and set_listing: "inv s \<Longrightarrow> set (listing s) = ran (contents s)"
    and sorted_listing: "inv s \<Longrightarrow> strictly_sorted (rank pos) (listing s)"
    and stored_fields: "inv s \<Longrightarrow> storable t \<Longrightarrow> pos (ID (stored t)) = pos (ID t) \<and> Title (stored t) = Title t
          \<and> Status (stored t) = Status t \<and> CreatedAt (stored t) = ts (CreatedAt t)
          \<and> CompletedAt (stored t) = map_option ts (CompletedAt t)"
    and stored_idem: "inv s \<Longrightarrow> storable t \<Longrightarrow> stored (stored t) = stored t"
    and storable_pos: "storable t \<Longrightarrow> pos (ID t) \<noteq> None"
    and stored_storable: "inv s \<Longrightarrow> contents s i = Some t \<Longrightarrow> Valid (Status u) \<Longrightarrow> ID u = ID t
          \<Longrightarrow> Title u = Title t \<Longrightarrow> storable u"
    and Save_inv: "inv s \<Longrightarrow> Save R t s = (er, s') \<Longrightarrow> inv s'"
    and Save_ok: "inv s \<Longrightarrow> Save R t s = (None, s') \<Longrightarrow>
          storable t \<and> contents s' = (contents s)(the (pos (ID t)) \<mapsto> stored t)"
    and Save_err: "inv s \<Longrightarrow> Save R t s = (Some e, s') \<Longrightarrow> backend_failure e
          \<and> (contents s' = contents s
             \<or> storable t \<and> contents s' = (contents s)(the (pos (ID t)) \<mapsto> stored t))"
    and Save_healthy: "inv s \<Longrightarrow> healthy s \<Longrightarrow> storable t \<Longrightarrow> \<exists>s'. Save R t s = (None, s') \<and> healthy s'"
    and Find_frame: "inv s \<Longrightarrow> FindByID R x s = (fr, s') \<Longrightarrow> inv s' \<and> contents s' = contents s \<and> listing s' = listing s"
    and Find_ok: "inv s \<Longrightarrow> FindByID R x s = (Inr t, s') \<Longrightarrow> Option.bind (pos x) (contents s) = Some t"
    and Find_err: "inv s \<Longrightarrow> FindByID R x s = (Inl e, s') \<Longrightarrow>
          backend_failure e \<or> e = ErrNotFound \<and> Option.bind (pos x) (contents s) = None"
    and Find_healthy: "inv s \<Longrightarrow> healthy s \<Longrightarrow> FindByID R x s = (fr, s') \<Longrightarrow>
          healthy s' \<and> (\<forall>e. fr = Inl e \<longrightarrow> \<not> backend_failure e)"
    and List_frame: "inv s \<Longrightarrow> List R q s = (lr, s') \<Longrightarrow> inv s' \<and> contents s' = contents s \<and> listing s' = listing s"
    and List_ok: "inv s \<Longrightarrow> 0 < Limit q \<Longrightarrow> Limit q \<le> MaxPageSize \<Longrightarrow> List R q s = (Inr p, s') \<Longrightarrow>
          p = list_spec pos ts q (listing s)"
    and List_err: "inv s \<Longrightarrow> 0 < Limit q \<Longrightarrow> Limit q \<le> MaxPageSize \<Longrightarrow> List R q s = (Inl e, s') \<Longrightarrow>
          backend_failure e \<or> errors_Is e ErrInvalidCursor \<and> \<not> errors_Is e ErrNotFound \<and> \<not> errors_Is e ErrInvalidTitle
            \<and> (\<exists>c. After q = Some c \<and> pos (cur_ID c) = None)"
    and List_healthy: "inv s \<Longrightarrow> healthy s \<Longrightarrow> 0 < Limit q \<Longrightarrow> Limit q \<le> MaxPageSize \<Longrightarrow> List R q s = (lr, s') \<Longrightarrow>
          healthy s' \<and> (\<forall>e. lr = Inl e \<longrightarrow> \<not> backend_failure e)"
begin

lemma listing_stored: "inv s \<Longrightarrow> t \<in> set (listing s) \<Longrightarrow> pos (ID t) \<noteq> None \<and> ts (CreatedAt t) = CreatedAt t"
  using contents_pos set_listing by (fastforce simp: ran_def)

lemma cursor_rank_cursor_of: "ts (CreatedAt t) = CreatedAt t \<Longrightarrow> cursor_rank pos ts (cursor_of t) = rank pos t"
  by (simp add: cursor_rank_def cursor_of_def rank_def)

lemma list_spec_Next:
  assumes "inv s" and "0 < n" and "list_spec pos ts \<lparr>Limit = n, After = c\<rparr> (listing s) = p" and "Next p = Some c'"
  shows "\<exists>k. keyset_page (rank pos) (nat n) (map_option (cursor_rank pos ts) c) (listing s) = (Todos p, Some k)
           \<and> cursor_rank pos ts c' = k \<and> pos (cur_ID c') \<noteq> None"
proof -
  let ?w = "window (rank pos) (map_option (cursor_rank pos ts) c) (listing s)"
  have len: "nat n < length ?w" and p: "p = \<lparr>Todos = take (nat n) ?w, Next = Some (cursor_of (last (take (nat n) ?w)))\<rparr>"
    using assms(3,4) by (auto simp: list_spec_def keyset_page_def Let_def split: if_splits)
  have last: "last (take (nat n) ?w) = ?w ! (nat n - 1)"
    using len assms(2) by (subst last_conv_nth) (auto simp: min_absorb2)
  have "?w ! (nat n - 1) \<in> set ?w" using len by simp
  then have "?w ! (nat n - 1) \<in> set (listing s)" by (auto simp: window_def split: option.splits)
  with assms(1) have st: "pos (ID (?w ! (nat n - 1))) \<noteq> None" "ts (CreatedAt (?w ! (nat n - 1))) = CreatedAt (?w ! (nat n - 1))"
    using listing_stored by auto
  have "c' = cursor_of (?w ! (nat n - 1))" using assms(4) p last by simp
  with st len p show ?thesis
    by (auto simp: keyset_page_def Let_def cursor_rank_cursor_of) (simp add: cursor_of_def)
qed

text \<open>On a healthy store the walk visits every stored todo exactly once, in list order.\<close>

lemma repo_walk_refines:
  assumes "inv s" and "healthy s" and "0 < n" and "n \<le> MaxPageSize"
    and "case c of None \<Rightarrow> True | Some c' \<Rightarrow> pos (cur_ID c') \<noteq> None"
    and "keyset_walk (rank pos) (nat n) fuel (map_option (cursor_rank pos ts) c) (listing s) = Some ps"
  shows "\<exists>s'. repo_walk (List R) n fuel c s = (Some (Inr ps), s') \<and> inv s' \<and> healthy s' \<and> listing s' = listing s"
  using assms
proof (induction fuel arbitrary: c s ps)
  case 0
  then show ?case by simp
next
  case (Suc fuel)
  let ?q = "\<lparr>Limit = n, After = c\<rparr>"
  let ?page = "keyset_page (rank pos) (nat n) (map_option (cursor_rank pos ts) c) (listing s)"
  obtain r s1 where L: "List R ?q s = (r, s1)" by fastforce
  note frame = List_frame [OF Suc.prems(1) L]
  have healthy1: "healthy s1" and no_fail: "\<And>e. r = Inl e \<Longrightarrow> \<not> backend_failure e"
    using List_healthy [OF Suc.prems(1,2) _ _ L] Suc.prems(3,4) by auto
  obtain p where r: "r = Inr p"
  proof (cases r)
    case (Inl e)
    with L have "backend_failure e \<or> (\<exists>c'. c = Some c' \<and> pos (cur_ID c') = None)"
      using List_err [OF Suc.prems(1), of ?q e s1] Suc.prems(3,4) by auto
    with no_fail [OF Inl] Suc.prems(5) show ?thesis by auto
  qed
  have p: "list_spec pos ts ?q (listing s) = p"
    using List_ok [OF Suc.prems(1), of ?q p s1] L r Suc.prems(3,4) by simp
  show ?case
  proof (cases "Next p")
    case None
    with p have "?page = (Todos p, None)"
      by (auto simp: list_spec_def split: prod.splits option.splits)
    with Suc.prems(6) have "ps = [Todos p]" by simp
    with None L r frame healthy1 show ?thesis by simp
  next
    case (Some c')
    from list_spec_Next [OF Suc.prems(1,3) p Some] obtain k where
      k: "?page = (Todos p, Some k)" "cursor_rank pos ts c' = k" "pos (cur_ID c') \<noteq> None" by blast
    with Suc.prems(6) obtain ps' where
      ps': "keyset_walk (rank pos) (nat n) fuel (Some k) (listing s) = Some ps'" "ps = Todos p # ps'" by auto
    have "keyset_walk (rank pos) (nat n) fuel (map_option (cursor_rank pos ts) (Some c')) (listing s1) = Some ps'"
      using ps' k frame by simp
    from Suc.IH [OF _ healthy1 Suc.prems(3,4) _ this] frame k obtain s' where
      "repo_walk (List R) n fuel (Some c') s1 = (Some (Inr ps'), s')" "inv s'" "healthy s'" "listing s' = listing s"
      by auto
    with L r Some ps' show ?thesis by simp
  qed
qed

lemma repo_walk_all:
  assumes "inv s" and "healthy s" and "0 < n" and "n \<le> MaxPageSize" and "length (listing s) < fuel"
  shows "\<exists>ps s'. repo_walk (List R) n fuel None s = (Some (Inr ps), s')
           \<and> concat ps = listing s \<and> (\<forall>p \<in> set ps. int (length p) \<le> n)"
proof -
  have "length (window (rank pos) None (listing s)) < fuel" using assms(5) by (simp add: window_def)
  from keyset_walk_complete [OF sorted_listing [OF assms(1)] _ this, of "nat n"] assms(3)
  obtain ps where ps: "keyset_walk (rank pos) (nat n) fuel None (listing s) = Some ps"
    "concat ps = listing s" "\<forall>p \<in> set ps. length p \<le> nat n"
    by (auto simp: window_def)
  then have "keyset_walk (rank pos) (nat n) fuel (map_option (cursor_rank pos ts) None) (listing s) = Some ps" by simp
  from repo_walk_refines [OF assms(1-4) _ this] ps assms(3) show ?thesis by fastforce
qed

end

end
