(* ===== verification/TodoMemory.thy ===== *)
theory TodoMemory
  imports TodoPort
begin

text \<open>
  The in-memory repository of \<open>internal/todo/todotest/repository.go\<close>.  Its Go map is an association
  list with distinct keys whose order is the (unspecified) iteration order; every operation holds
  the mutex for its whole effect on the map, so each is one atomic step.  The interpretation
  \<open>mem\<close> shows that it meets the contract of the port.
\<close>

section \<open>Operations\<close>

type_synonym mem_store = "(string \<times> todo) list"

definition NewRepository :: mem_store where
  "NewRepository = []"

definition mem_Save :: "todo \<Rightarrow> mem_store \<Rightarrow> go_error option \<times> mem_store" where
  "mem_Save t m = (None, aput (ID t) t m)"

definition mem_FindByID :: "string \<Rightarrow> mem_store \<Rightarrow> todo result \<times> mem_store" where
  "mem_FindByID i m = (case map_of m i of None \<Rightarrow> (Inl ErrNotFound, m) | Some t \<Rightarrow> (Inr t, m))"

definition todo_less :: "todo \<Rightarrow> todo \<Rightarrow> bool" where
  "todo_less a b = (if CreatedAt a = CreatedAt b then ID a < ID b else CreatedAt a < CreatedAt b)"

definition afterCursor :: "todo \<Rightarrow> cursor \<Rightarrow> bool" where
  "afterCursor t c =
     (if CreatedAt t = cur_CreatedAt c then ID t > cur_ID c else CreatedAt t > cur_CreatedAt c)"

text \<open>The loop that advances \<open>start\<close> while the todo there is not after the cursor.\<close>

fun skip_to :: "cursor \<Rightarrow> todo list \<Rightarrow> todo list" where
  "skip_to c [] = []"
| "skip_to c (t # ts) = (if \<not> afterCursor t c then skip_to c ts else t # ts)"

definition mem_List :: "page_query \<Rightarrow> mem_store \<Rightarrow> page_result result \<times> mem_store" where
  "mem_List q m =
     (let all = sort_by todo_less (map snd m);
          win = (case After q of None \<Rightarrow> all | Some c \<Rightarrow> skip_to c all)
      in if Limit q > 0 \<and> int (length win) > Limit q
         then (let win' = take (nat (Limit q)) win; lst = win' ! (length win' - 1)
               in (Inr \<lparr>Todos = win', Next = Some \<lparr>cur_CreatedAt = CreatedAt lst, cur_ID = ID lst\<rparr>\<rparr>, m))
         else (Inr \<lparr>Todos = win, Next = None\<rparr>, m))"

definition mem_repo :: "mem_store repository" where
  "mem_repo = \<lparr>Save = mem_Save, FindByID = mem_FindByID, List = mem_List\<rparr>"

section \<open>Refinement of the port\<close>

definition mem_inv :: "mem_store \<Rightarrow> bool" where
  "mem_inv m \<longleftrightarrow> distinct (map fst m) \<and> list_all (\<lambda>(k, t). k = ID t) m"

definition mem_listing :: "mem_store \<Rightarrow> todo list" where
  "mem_listing m = sort_by todo_less (map snd m)"

abbreviation mem_rank :: "todo \<Rightarrow> time \<times> string" where
  "mem_rank \<equiv> rank Some"

lemma todo_less_rank: "todo_less a b \<longleftrightarrow> mem_rank a < mem_rank b"
  by (auto simp: todo_less_def rank_def less_prod_def)

lemma afterCursor_rank: "afterCursor t c \<longleftrightarrow> cursor_rank Some (\<lambda>x. x) c < mem_rank t"
  by (auto simp: afterCursor_def rank_def cursor_rank_def less_prod_def)

lemma mem_listing_sort_key: "mem_listing m = sort_key mem_rank (map snd m)"
  unfolding mem_listing_def by (rule sort_by_eq_sort_key) (rule todo_less_rank)

lemma skip_to_dropWhile: "skip_to c ts = dropWhile (\<lambda>t. \<not> afterCursor t c) ts"
  by (induction ts) auto

lemma distinct_mem_rank: "mem_inv m \<Longrightarrow> distinct (map mem_rank (map snd m))"
proof -
  assume inv: "mem_inv m"
  then have "map snd (map mem_rank (map snd m)) = map fst m"
    by (auto simp: mem_inv_def rank_def list_all_iff)
  then have "distinct (map snd (map mem_rank (map snd m)))"
    using inv unfolding mem_inv_def by metis
  then show ?thesis by (rule distinct_map [THEN iffD1, THEN conjunct1])
qed

lemma mem_listing_sorted: "mem_inv m \<Longrightarrow> strictly_sorted mem_rank (mem_listing m)"
  unfolding mem_listing_sort_key by (rule strict_sorted_sort_key [OF distinct_mem_rank])

lemma mem_inv_aput: "mem_inv m \<Longrightarrow> mem_inv (aput (ID t) t m)"
proof -
  assume inv: "mem_inv m"
  have "list_all (\<lambda>(k, t). k = ID t) (aput (ID t) t m)"
    using inv by (induction "ID t" t m rule: aput.induct) (auto simp: mem_inv_def)
  with inv show ?thesis by (simp add: mem_inv_def)
qed

lemma mem_contents_ID: "mem_inv m \<Longrightarrow> map_of m i = Some t \<Longrightarrow> ID t = i"
  by (auto simp: mem_inv_def list_all_iff dest!: map_of_SomeD)

text \<open>
  The loop with its skipped prefix, the over-long window and the cursor of the last element compute
  the reference page.
\<close>

lemma mem_List_refines:
  assumes "mem_inv m" and "0 < Limit q"
  shows "mem_List q m = (Inr (list_spec Some (\<lambda>x. x) q (mem_listing m)), m)"
proof -
  let ?win = "case After q of None \<Rightarrow> mem_listing m | Some c \<Rightarrow> skip_to c (mem_listing m)"
  have win: "?win = window mem_rank (map_option (cursor_rank Some (\<lambda>x. x)) (After q)) (mem_listing m)"
  proof (cases "After q")
    case (Some c)
    have "skip_to c (mem_listing m) = filter (\<lambda>t. afterCursor t c) (mem_listing m)"
      unfolding skip_to_dropWhile
      by (rule dropWhile_eq_filter_sorted [OF mem_listing_sorted [OF assms(1)]])
         (auto simp: afterCursor_rank)
    with Some show ?thesis by (simp add: window_def afterCursor_rank)
  qed (simp add: window_def)
  show ?thesis
  proof (cases "int (length ?win) > Limit q")
    case True
    let ?ys = "take (nat (Limit q)) ?win"
    have "?ys \<noteq> []" using True assms(2) by auto
    then have "?ys ! (length ?ys - 1) = last ?ys" by (simp add: last_conv_nth)
    with True assms(2) win [symmetric] show ?thesis
      by (simp add: mem_List_def mem_listing_def [symmetric] Let_def list_spec_def keyset_page_def
          cursor_of_def zless_nat_eq_int_zless [symmetric] split del: option.split)
  next
    case False
    with assms(2) win [symmetric] show ?thesis
      by (simp add: mem_List_def mem_listing_def [symmetric] Let_def list_spec_def keyset_page_def)
  qed
qed

lemma mem_List_frame: "mem_List q m = (r, m') \<Longrightarrow> m' = m"
  by (auto simp: mem_List_def Let_def split: if_splits)

interpretation mem: todo_repository mem_repo mem_inv "\<lambda>_. True" map_of mem_listing Some "\<lambda>x. x" "\<lambda>t. t" "\<lambda>_. True"
proof (unfold_locales, goal_cases)
  case 2
  then show ?case by (simp add: mem_listing_sort_key mem_inv_def ran_distinct)
next
  case 3
  then show ?case by (rule mem_listing_sorted)
qed (auto simp: mem_repo_def mem_Save_def mem_FindByID_def mem_inv_aput mem_contents_ID mem_List_refines
      option.map_ident dest!: mem_List_frame split: option.splits)

end
