(* ===== verification/TodoPostgres.thy ===== *)
theory TodoPostgres
  imports TodoPort "HOL-Library.Word"
begin

text \<open>
  The PostgreSQL adapter: \<open>internal/todo/postgres/mapping.go\<close>, \<open>internal/todo/postgres/repository.go\<close>
  and the queries of \<open>internal/todo/postgres/sqlc/todos.sql.go\<close>.

  Code outside the repository enters as the parameter \<open>pg_env\<close>: \<open>uuid.Parse\<close> and
  \<open>UUID.String\<close> of \<open>github.com/google/uuid\<close>, what a \<open>timestamptz\<close> keeps of an instant, and which
  byte strings a \<open>text\<close> column accepts.  \<open>env_ok\<close> states what their documentation promises.  The
  three SQL statements are interpreted on a table with the primary key \<open>id\<close>; a statement may also
  fail, as the list \<open>faults\<close> of the state prescribes, before or after it took effect.
\<close>

section \<open>The environment\<close>

type_synonym uuid = "128 word"

record pg_env =
  uuid_Parse :: "string \<Rightarrow> uuid option"
  uuid_String :: "uuid \<Rightarrow> string"
  timestamptz :: "time \<Rightarrow> time"
  text_ok :: "string \<Rightarrow> bool"

definition env_ok :: "pg_env \<Rightarrow> bool" where
  "env_ok E \<longleftrightarrow> (\<forall>u. uuid_Parse E (uuid_String E u) = Some u)
     \<and> (\<forall>t. timestamptz E (timestamptz E t) = timestamptz E t)"

datatype fault = NoFault | FailBefore string | FailAfter string

section \<open>Rows and queries (sqlc)\<close>

record row =
  row_ID :: uuid
  row_Title :: string
  row_Status :: string
  row_CreatedAt :: time
  row_CompletedAt :: "time option"

record list_params =
  AfterCreatedAt :: "time option"
  AfterID :: "uuid option"
  PageLimit :: "32 word"

record pg_db =
  table_todos :: "(uuid \<times> row) list"
  faults :: "fault list"

definition ErrNoRows :: go_error where
  [go_defs]: "ErrNoRows = Sentinel ''pgx.ErrNoRows'' ''no rows in result set''"

definition next_fault :: "pg_db \<Rightarrow> fault \<times> pg_db" where
  "next_fault db = (case faults db of [] \<Rightarrow> (NoFault, db) | f # fs \<Rightarrow> (f, db\<lparr>faults := fs\<rparr>))"

definition GetTodo :: "uuid \<Rightarrow> pg_db \<Rightarrow> row result \<times> pg_db" where
  "GetTodo u db =
     (case next_fault db of
        (NoFault, db') \<Rightarrow> (case map_of (table_todos db') u of None \<Rightarrow> (Inl ErrNoRows, db') | Some r \<Rightarrow> (Inr r, db'))
      | (FailBefore msg, db') \<Rightarrow> (Inl (ErrorString msg), db')
      | (FailAfter msg, db') \<Rightarrow> (Inl (ErrorString msg), db'))"

text \<open>The row comparison \<open>(created_at, id) > ($1, $2)\<close> of SQL, with \<open>$2\<close> possibly NULL.\<close>

definition row_after :: "list_params \<Rightarrow> row \<Rightarrow> bool" where
  "row_after p r =
     (case AfterCreatedAt p of
        None \<Rightarrow> True
      | Some t \<Rightarrow> t < row_CreatedAt r
          \<or> t = row_CreatedAt r \<and> (case AfterID p of None \<Rightarrow> False | Some u \<Rightarrow> u < row_ID r))"

definition ListTodos :: "list_params \<Rightarrow> pg_db \<Rightarrow> row list result \<times> pg_db" where
  "ListTodos p db =
     (case next_fault db of
        (NoFault, db') \<Rightarrow>
          (if sint (PageLimit p) < 0 then (Inl (ErrorString ''LIMIT must not be negative''), db')
           else (Inr (take (nat (sint (PageLimit p)))
                   (sort_key (\<lambda>r. (row_CreatedAt r, row_ID r)) (filter (row_after p) (map snd (table_todos db'))))), db'))
      | (FailBefore msg, db') \<Rightarrow> (Inl (ErrorString msg), db')
      | (FailAfter msg, db') \<Rightarrow> (Inl (ErrorString msg), db'))"

text \<open>
  The upsert replaces every column; the table's CHECK constraint admits the two known statuses
  only, and a \<open>text\<close> value has to be acceptable to the server.
\<close>

definition UpsertTodo :: "pg_env \<Rightarrow> row \<Rightarrow> pg_db \<Rightarrow> go_error option \<times> pg_db" where
  "UpsertTodo E r db =
     (let applied = (\<lambda>db. db\<lparr>table_todos := aput (row_ID r)
            (r\<lparr>row_CreatedAt := timestamptz E (row_CreatedAt r),
               row_CompletedAt := map_option (timestamptz E) (row_CompletedAt r)\<rparr>) (table_todos db)\<rparr>);
          accepted = text_ok E (row_Title r) \<and> row_Status r \<in> {''open'', ''completed''}
      in case next_fault db of
        (NoFault, db') \<Rightarrow>
          (if accepted then (None, applied db') else (Some (ErrorString ''constraint or encoding violation''), db'))
      | (FailBefore msg, db') \<Rightarrow> (Some (ErrorString msg), db')
      | (FailAfter msg, db') \<Rightarrow> (Some (ErrorString msg), if accepted then applied db' else db'))"

section \<open>Mapping\<close>

definition uuidParse :: "pg_env \<Rightarrow> string \<Rightarrow> uuid result" where
  "uuidParse E i = (case uuid_Parse E i of None \<Rightarrow> Inl ErrNotFound | Some u \<Rightarrow> Inr u)"

text \<open>The parse error of \<open>uuid.Parse\<close> itself is opaque.\<close>

definition uuid_parse_error :: go_error where
  [go_defs]: "uuid_parse_error = ErrorString ''invalid UUID''"

definition toUpsertParams :: "pg_env \<Rightarrow> todo \<Rightarrow> row result" where
  "toUpsertParams E t =
     (case uuid_Parse E (ID t) of
        None \<Rightarrow> Inl (Errorf ''parse todo id %q: %w'' [ID t] uuid_parse_error)
      | Some u \<Rightarrow> Inr \<lparr>row_ID = u, row_Title = Title t, row_Status = Status t,
                      row_CreatedAt = CreatedAt t, row_CompletedAt = CompletedAt t\<rparr>)"

definition fromRow :: "pg_env \<Rightarrow> row \<Rightarrow> todo result" where
  "fromRow E r =
     (if \<not> Valid (row_Status r) then
        Inl (ErrorFmt ''invalid stored status %q for todo %s'' [row_Status r, uuid_String E (row_ID r)])
      else Inr \<lparr>ID = uuid_String E (row_ID r), Title = row_Title r, Status = row_Status r,
                CreatedAt = row_CreatedAt r, CompletedAt = row_CompletedAt r\<rparr>)"

section \<open>The repository\<close>

definition pg_Save :: "pg_env \<Rightarrow> todo \<Rightarrow> pg_db \<Rightarrow> go_error option \<times> pg_db" where
  "pg_Save E t db =
     (case toUpsertParams E t of
        Inl e \<Rightarrow> (Some e, db)
      | Inr params \<Rightarrow>
          (case UpsertTodo E params db of
             (Some e, db') \<Rightarrow> (Some (Errorf ''upsert todo %s: %w'' [ID t] e), db')
           | (None, db') \<Rightarrow> (None, db')))"

definition pg_FindByID :: "pg_env \<Rightarrow> string \<Rightarrow> pg_db \<Rightarrow> todo result \<times> pg_db" where
  "pg_FindByID E i db =
     (case uuidParse E i of
        Inl e \<Rightarrow> (Inl e, db)
      | Inr u \<Rightarrow>
          (case GetTodo u db of
             (Inl e, db') \<Rightarrow>
               (if errors_Is e ErrNoRows then (Inl ErrNotFound, db')
                else (Inl (Errorf ''get todo %s: %w'' [i] e), db'))
           | (Inr r, db') \<Rightarrow> (fromRow E r, db')))"

text \<open>The loop over the fetched rows stops at the first row that cannot be mapped.\<close>

fun fromRows :: "pg_env \<Rightarrow> row list \<Rightarrow> todo list result" where
  "fromRows E [] = Inr []"
| "fromRows E (r # rs) =
     (case fromRow E r of
        Inl e \<Rightarrow> Inl e
      | Inr t \<Rightarrow> (case fromRows E rs of Inl e \<Rightarrow> Inl e | Inr ts \<Rightarrow> Inr (t # ts)))"

text \<open>
  \<open>int32(page.Limit) + 1\<close>: the conversion keeps the low 32 bits and the addition wraps around.
\<close>

definition over_fetch :: "int \<Rightarrow> 32 word" where
  "over_fetch limit = word_of_int limit + 1"

definition pg_List :: "pg_env \<Rightarrow> page_query \<Rightarrow> pg_db \<Rightarrow> page_result result \<times> pg_db" where
  "pg_List E q db =
     (case (case After q of
              None \<Rightarrow> Inr \<lparr>AfterCreatedAt = None, AfterID = None, PageLimit = over_fetch (Limit q)\<rparr>
            | Some c \<Rightarrow>
                (case uuid_Parse E (cur_ID c) of
                   None \<Rightarrow> Inl (Errorf ''parse cursor id %q: %w'' [cur_ID c] ErrInvalidCursor)
                 | Some u \<Rightarrow> Inr \<lparr>AfterCreatedAt = Some (timestamptz E (cur_CreatedAt c)), AfterID = Some u,
                                 PageLimit = over_fetch (Limit q)\<rparr>)) of
        Inl e \<Rightarrow> (Inl e, db)
      | Inr params \<Rightarrow>
          (case ListTodos params db of
             (Inl e, db') \<Rightarrow> (Inl (Errorf ''list todos: %w'' [] e), db')
           | (Inr rows, db') \<Rightarrow>
               (case fromRows E rows of
                  Inl e \<Rightarrow> (Inl e, db')
                | Inr todos \<Rightarrow>
                    (if Limit q > 0 \<and> int (length todos) > Limit q
                     then (let lst = todos ! (nat (Limit q) - 1)
                           in (Inr \<lparr>Todos = take (nat (Limit q)) todos,
                                    Next = Some \<lparr>cur_CreatedAt = CreatedAt lst, cur_ID = ID lst\<rparr>\<rparr>, db'))
                     else (Inr \<lparr>Todos = todos, Next = None\<rparr>, db')))))"

definition pg_Ping :: "pg_db \<Rightarrow> go_error option \<times> pg_db" where
  "pg_Ping db =
     (case next_fault db of
        (NoFault, db') \<Rightarrow> (None, db')
      | (FailBefore msg, db') \<Rightarrow> (Some (Errorf ''ping database: %w'' [] (ErrorString msg)), db')
      | (FailAfter msg, db') \<Rightarrow> (Some (Errorf ''ping database: %w'' [] (ErrorString msg)), db'))"

definition pg_repo :: "pg_env \<Rightarrow> pg_db repository" where
  "pg_repo E = \<lparr>Save = pg_Save E, FindByID = pg_FindByID E, List = pg_List E\<rparr>"

section \<open>Refinement of the port\<close>

definition to_todo :: "pg_env \<Rightarrow> row \<Rightarrow> todo" where
  "to_todo E r = \<lparr>ID = uuid_String E (row_ID r), Title = row_Title r, Status = row_Status r,
                  CreatedAt = row_CreatedAt r, CompletedAt = row_CompletedAt r\<rparr>"

definition row_key :: "row \<Rightarrow> time \<times> uuid" where
  "row_key r = (row_CreatedAt r, row_ID r)"

definition row_ok :: "pg_env \<Rightarrow> row \<Rightarrow> bool" where
  "row_ok E r \<longleftrightarrow> Valid (row_Status r) \<and> text_ok E (row_Title r)
     \<and> timestamptz E (row_CreatedAt r) = row_CreatedAt r"

definition pg_inv :: "pg_env \<Rightarrow> pg_db \<Rightarrow> bool" where
  "pg_inv E db \<longleftrightarrow> env_ok E \<and> distinct (map fst (table_todos db))
     \<and> (\<forall>(k, r) \<in> set (table_todos db). row_ID r = k \<and> row_ok E r)"

definition pg_healthy :: "pg_db \<Rightarrow> bool" where
  "pg_healthy db \<longleftrightarrow> list_all (\<lambda>f. f = NoFault) (faults db)"

definition pg_contents :: "pg_env \<Rightarrow> pg_db \<Rightarrow> uuid \<Rightarrow> todo option" where
  "pg_contents E db u = map_option (to_todo E) (map_of (table_todos db) u)"

definition pg_listing :: "pg_env \<Rightarrow> pg_db \<Rightarrow> todo list" where
  "pg_listing E db = map (to_todo E) (sort_key row_key (map snd (table_todos db)))"

definition pg_stored :: "pg_env \<Rightarrow> todo \<Rightarrow> todo" where
  "pg_stored E t = t\<lparr>ID := uuid_String E (the (uuid_Parse E (ID t))),
     CreatedAt := timestamptz E (CreatedAt t), CompletedAt := map_option (timestamptz E) (CompletedAt t)\<rparr>"

definition pg_storable :: "pg_env \<Rightarrow> todo \<Rightarrow> bool" where
  "pg_storable E t \<longleftrightarrow> uuid_Parse E (ID t) \<noteq> None \<and> Valid (Status t) \<and> text_ok E (Title t)"

lemma Valid_iff: "Valid s \<longleftrightarrow> s \<in> {''open'', ''completed''}"
  by (auto simp: Valid_def go_defs)

lemma fromRow_valid: "Valid (row_Status r) \<Longrightarrow> fromRow E r = Inr (to_todo E r)"
  by (simp add: fromRow_def to_todo_def)

lemma fromRows_valid: "(\<And>r. r \<in> set rs \<Longrightarrow> Valid (row_Status r)) \<Longrightarrow> fromRows E rs = Inr (map (to_todo E) rs)"
  by (induction rs) (simp_all add: fromRow_valid)

lemma rank_to_todo: "env_ok E \<Longrightarrow> rank (uuid_Parse E) (to_todo E r) = row_key r"
  by (simp add: rank_def to_todo_def env_ok_def row_key_def)

lemma next_fault_cases:
  obtains (ok) db' where "next_fault db = (NoFault, db')" "table_todos db' = table_todos db" "pg_healthy db \<Longrightarrow> pg_healthy db'"
  | (fail) db' msg f where "next_fault db = (f, db')" "f = FailBefore msg \<or> f = FailAfter msg"
      "table_todos db' = table_todos db" "\<not> pg_healthy db"
proof (cases "faults db")
  case Nil
  then show ?thesis using ok by (simp add: next_fault_def)
next
  case (Cons f fs)
  then show ?thesis
    using ok fail by (cases f) (auto simp: next_fault_def pg_healthy_def)
qed

lemma pg_inv_cong: "table_todos db' = table_todos db \<Longrightarrow> pg_inv E db' = pg_inv E db"
  by (simp add: pg_inv_def)

lemma pg_contents_cong: "table_todos db' = table_todos db \<Longrightarrow> pg_contents E db' = pg_contents E db"
  by (simp add: pg_contents_def fun_eq_iff)

lemma pg_listing_cong: "table_todos db' = table_todos db \<Longrightarrow> pg_listing E db' = pg_listing E db"
  by (simp add: pg_listing_def)

lemmas pg_congs = pg_inv_cong pg_contents_cong pg_listing_cong

lemma pg_row: "pg_inv E db \<Longrightarrow> map_of (table_todos db) u = Some r \<Longrightarrow> row_ID r = u \<and> row_ok E r"
  by (auto simp: pg_inv_def dest!: map_of_SomeD)

lemma pg_row_mem: "pg_inv E db \<Longrightarrow> r \<in> snd ` set (table_todos db) \<Longrightarrow> row_ok E r"
  by (auto simp: pg_inv_def)

lemma pg_listing_sorted:
  assumes "pg_inv E db"
  shows "strictly_sorted (rank (uuid_Parse E)) (pg_listing E db)"
proof -
  have "map snd (map row_key (map snd (table_todos db))) = map fst (table_todos db)"
    using assms by (auto simp: pg_inv_def row_key_def)
  then have "distinct (map snd (map row_key (map snd (table_todos db))))"
    using assms unfolding pg_inv_def by metis
  then have "distinct (map row_key (map snd (table_todos db)))"
    by (rule distinct_map [THEN iffD1, THEN conjunct1])
  from strict_sorted_sort_key [OF this] assms show ?thesis
    by (simp add: pg_listing_def sorted_wrt_map rank_to_todo pg_inv_def)
qed

lemma sint_over_fetch: "sint (over_fetch n) = signed_take_bit 31 (n + 1)"
proof -
  have "over_fetch n = word_of_int (n + 1)" by (simp add: over_fetch_def)
  then show ?thesis by (simp only: sint_sbintrunc') simp
qed

lemma over_fetch_exact: "0 < n \<Longrightarrow> n \<le> MaxPageSize \<Longrightarrow> sint (over_fetch n) = n + 1"
  by (simp add: sint_over_fetch MaxPageSize_def signed_take_bit_int_eq_self)

lemma pg_FindByID_spec:
  assumes "pg_inv E db" and "pg_FindByID E x db = (r, db')"
  shows "table_todos db' = table_todos db \<and> (pg_healthy db \<longrightarrow> pg_healthy db')
    \<and> (\<forall>t. r = Inr t \<longrightarrow> Option.bind (uuid_Parse E x) (pg_contents E db) = Some t)
    \<and> (\<forall>e. r = Inl e \<longrightarrow> backend_failure e \<and> \<not> pg_healthy db
           \<or> e = ErrNotFound \<and> Option.bind (uuid_Parse E x) (pg_contents E db) = None)"
proof (cases "uuid_Parse E x")
  case None
  with assms show ?thesis by (auto simp: pg_FindByID_def uuidParse_def)
next
  case (Some u)
  show ?thesis
  proof (cases rule: next_fault_cases [of db])
    case (ok db1)
    show ?thesis
    proof (cases "map_of (table_todos db) u")
      case None
      with Some ok assms(2) show ?thesis
        by (auto simp: pg_FindByID_def uuidParse_def GetTodo_def pg_contents_def go_defs)
    next
      case (Some r')
      with pg_row [OF assms(1) Some] have "fromRow E r' = Inr (to_todo E r')"
        by (simp add: fromRow_valid row_ok_def)
      with Some \<open>uuid_Parse E x = Some u\<close> ok assms(2) show ?thesis
        by (auto simp: pg_FindByID_def uuidParse_def GetTodo_def pg_contents_def)
    qed
  next
    case (fail db1 msg f)
    with Some assms(2) show ?thesis
      by (auto simp: pg_FindByID_def uuidParse_def GetTodo_def go_defs)
  qed
qed

lemma pg_inv_applied:
  assumes "pg_inv E db" and "Valid (Status t)" and "text_ok E (Title t)"
    and "uuid_Parse E (ID t) = Some u"
    and "table_todos db' = aput u \<lparr>row_ID = u, row_Title = Title t, row_Status = Status t,
            row_CreatedAt = timestamptz E (CreatedAt t),
            row_CompletedAt = map_option (timestamptz E) (CompletedAt t)\<rparr> (table_todos db)"
  shows "pg_inv E db'" and "pg_contents E db' = (pg_contents E db)(u \<mapsto> pg_stored E t)"
proof -
  let ?r = "\<lparr>row_ID = u, row_Title = Title t, row_Status = Status t,
            row_CreatedAt = timestamptz E (CreatedAt t),
            row_CompletedAt = map_option (timestamptz E) (CompletedAt t)\<rparr>"
  have "set (aput k v m) \<subseteq> insert (k, v) (set m)" for k v and m :: "(uuid \<times> row) list"
    by (induction k v m rule: aput.induct) auto
  with assms show "pg_inv E db'"
    by (fastforce simp: pg_inv_def row_ok_def env_ok_def)
  show "pg_contents E db' = (pg_contents E db)(u \<mapsto> pg_stored E t)"
    using assms(4,5) by (auto simp: pg_contents_def to_todo_def pg_stored_def fun_eq_iff)
qed

text \<open>A statement either leaves the table alone and fails, or replaces the row.\<close>

lemma UpsertTodo_cases:
  assumes "UpsertTodo E r db = (er, db')"
  obtains (skipped) msg where "er = Some (ErrorString msg)" "table_todos db' = table_todos db"
      "\<not> (pg_healthy db \<and> text_ok E (row_Title r) \<and> Valid (row_Status r))"
  | (replaced) "text_ok E (row_Title r)" "Valid (row_Status r)"
      "er = None \<and> (pg_healthy db \<longrightarrow> pg_healthy db') \<or> (\<exists>msg. er = Some (ErrorString msg) \<and> \<not> pg_healthy db)"
      "table_todos db' = aput (row_ID r) (r\<lparr>row_CreatedAt := timestamptz E (row_CreatedAt r),
           row_CompletedAt := map_option (timestamptz E) (row_CompletedAt r)\<rparr>) (table_todos db)"
proof (cases "text_ok E (row_Title r) \<and> Valid (row_Status r)")
  case False
  then have "\<not> (text_ok E (row_Title r) \<and> row_Status r \<in> {''open'', ''completed''})"
    by (simp add: Valid_iff)
  then have "\<exists>msg. er = Some (ErrorString msg)" "table_todos db' = table_todos db"
    using assms by (cases rule: next_fault_cases [of db]; force simp: UpsertTodo_def)+
  with False skipped show ?thesis by blast
next
  case True
  then have acc: "text_ok E (row_Title r) \<and> row_Status r \<in> {''open'', ''completed''}"
    by (simp add: Valid_iff)
  show ?thesis
  proof (cases rule: next_fault_cases [of db])
    case (ok db1)
    with acc assms have "er = None" "table_todos db' = aput (row_ID r) (r\<lparr>row_CreatedAt := timestamptz E (row_CreatedAt r),
           row_CompletedAt := map_option (timestamptz E) (row_CompletedAt r)\<rparr>) (table_todos db)"
      "faults db' = faults db1"
      by (auto simp: UpsertTodo_def)
    with True ok replaced show ?thesis by (auto simp: pg_healthy_def)
  next
    case (fail db1 msg f)
    from fail(2) show ?thesis
    proof
      assume "f = FailBefore msg"
      with fail assms have "er = Some (ErrorString msg)" "table_todos db' = table_todos db"
        by (auto simp: UpsertTodo_def)
      with fail skipped show ?thesis by blast
    next
      assume "f = FailAfter msg"
      with fail acc assms have "er = Some (ErrorString msg)"
        "table_todos db' = aput (row_ID r) (r\<lparr>row_CreatedAt := timestamptz E (row_CreatedAt r),
           row_CompletedAt := map_option (timestamptz E) (row_CompletedAt r)\<rparr>) (table_todos db)"
        by (auto simp: UpsertTodo_def)
      with True fail replaced show ?thesis by blast
    qed
  qed
qed

lemma pg_Save_spec:
  assumes "pg_inv E db" and "pg_Save E t db = (er, db')"
  shows "pg_inv E db'
    \<and> (er = None \<longrightarrow> pg_storable E t \<and> pg_contents E db' = (pg_contents E db)(the (uuid_Parse E (ID t)) \<mapsto> pg_stored E t))
    \<and> (\<forall>e. er = Some e \<longrightarrow> backend_failure e
        \<and> (pg_contents E db' = pg_contents E db
           \<or> pg_storable E t \<and> pg_contents E db' = (pg_contents E db)(the (uuid_Parse E (ID t)) \<mapsto> pg_stored E t)))
    \<and> (pg_healthy db \<longrightarrow> pg_storable E t \<longrightarrow> er = None \<and> pg_healthy db')"
proof (cases "uuid_Parse E (ID t)")
  case None
  with assms show ?thesis
    by (auto simp: pg_Save_def toUpsertParams_def pg_storable_def go_defs)
next
  case (Some u)
  let ?r = "\<lparr>row_ID = u, row_Title = Title t, row_Status = Status t,
             row_CreatedAt = CreatedAt t, row_CompletedAt = CompletedAt t\<rparr>"
  obtain er1 where up: "UpsertTodo E ?r db = (er1, db')"
    and er: "er = map_option (Errorf ''upsert todo %s: %w'' [ID t]) er1"
    using assms(2) Some
    by (cases "UpsertTodo E ?r db"; cases "fst (UpsertTodo E ?r db)") (simp_all add: pg_Save_def toUpsertParams_def)
  from up show ?thesis
  proof (cases rule: UpsertTodo_cases)
    case (skipped msg)
    note same = pg_congs [OF skipped(2), of E]
    with skipped er assms(1) show ?thesis by (auto simp: pg_storable_def)
  next
    case replaced
    have "Valid (Status t)" "text_ok E (Title t)" using replaced by simp_all
    moreover from replaced(4) have "table_todos db' = aput u \<lparr>row_ID = u, row_Title = Title t, row_Status = Status t,
            row_CreatedAt = timestamptz E (CreatedAt t),
            row_CompletedAt = map_option (timestamptz E) (CompletedAt t)\<rparr> (table_todos db)" by simp
    ultimately have "pg_inv E db'" "pg_contents E db' = (pg_contents E db)(u \<mapsto> pg_stored E t)" "pg_storable E t"
      using pg_inv_applied [OF assms(1) _ _ Some] Some by (auto simp: pg_storable_def)
    with replaced(3) Some er show ?thesis by auto
  qed
qed

lemma take_Suc_page: "n < length w \<Longrightarrow> take n (take (Suc n) w) = take n w \<and> n < length (take (Suc n) w)"
  by (auto simp: min_def)

text \<open>
  One extra row, trimmed again, decides whether there is a further page: the query, the mapping and
  the trimming together compute the reference page.
\<close>

lemma pg_rows_window:
  assumes "pg_inv E db" and "AfterCreatedAt p = map_option (\<lambda>c. timestamptz E (cur_CreatedAt c)) c"
    and "AfterID p = map_option (\<lambda>c. the (uuid_Parse E (cur_ID c))) c"
  shows "map (to_todo E) (sort_key row_key (filter (row_after p) (map snd (table_todos db))))
     = window (rank (uuid_Parse E)) (map_option (cursor_rank (uuid_Parse E) (timestamptz E)) c) (pg_listing E db)"
proof -
  have env: "env_ok E" using assms(1) by (simp add: pg_inv_def)
  show ?thesis
  proof (cases c)
    case None
    then have "filter (row_after p) (map snd (table_todos db)) = map snd (table_todos db)"
      using assms(2) by (simp add: filter_id_conv row_after_def)
    with None show ?thesis by (simp add: window_def pg_listing_def)
  next
    case (Some c')
    have "row_after p r \<longleftrightarrow> cursor_rank (uuid_Parse E) (timestamptz E) c' < rank (uuid_Parse E) (to_todo E r)" for r
      using assms(2,3) Some by (auto simp: row_after_def rank_to_todo [OF env] row_key_def cursor_rank_def)
    with Some show ?thesis
      by (simp add: window_def pg_listing_def filter_map comp_def filter_sort)
  qed
qed

lemma page_of_over_fetch:
  assumes "0 < n" and "todos = take (Suc n) w"
  shows "(if length todos > n then \<lparr>Todos = take n todos, Next = Some (cursor_of (todos ! (n - 1)))\<rparr>
          else \<lparr>Todos = todos, Next = None\<rparr>)
       = (if n < length w then \<lparr>Todos = take n w, Next = Some (cursor_of (last (take n w)))\<rparr>
          else \<lparr>Todos = take n w, Next = None\<rparr>)"
proof (cases "n < length w")
  case True
  then have "last (take n w) = w ! (n - 1)"
    using assms(1) by (subst last_conv_nth) (auto simp: min_absorb2)
  with True assms show ?thesis by (simp add: min_def)
next
  case False
  with assms show ?thesis by simp
qed

lemma pg_List_frame:
  assumes "pg_List E q db = (r, db')"
  shows "table_todos db' = table_todos db \<and> (pg_healthy db \<longrightarrow> pg_healthy db')"
  using assms
  by (cases rule: next_fault_cases [of db])
     (auto simp: pg_List_def ListTodos_def Let_def split: option.splits sum.splits if_splits)

lemma pg_List_spec:
  assumes "pg_inv E db" and "0 < Limit q" and "Limit q \<le> MaxPageSize" and "pg_List E q db = (r, db')"
  shows "r = Inr (list_spec (uuid_Parse E) (timestamptz E) q (pg_listing E db))
     \<or> (\<exists>e. r = Inl e \<and> backend_failure e \<and> \<not> pg_healthy db)
     \<or> (\<exists>e c. r = Inl e \<and> \<not> backend_failure e \<and> errors_Is e ErrInvalidCursor
          \<and> \<not> errors_Is e ErrNotFound \<and> \<not> errors_Is e ErrInvalidTitle \<and> After q = Some c \<and> uuid_Parse E (cur_ID c) = None)"
proof (cases "\<exists>c. After q = Some c \<and> uuid_Parse E (cur_ID c) = None")
  case True
  then obtain c where "After q = Some c" "uuid_Parse E (cur_ID c) = None" by blast
  with assms(4) show ?thesis by (auto simp: pg_List_def)
next
  case False
  let ?n = "nat (Limit q)"
  let ?p = "\<lparr>AfterCreatedAt = map_option (\<lambda>c. timestamptz E (cur_CreatedAt c)) (After q),
             AfterID = map_option (\<lambda>c. the (uuid_Parse E (cur_ID c))) (After q),
             PageLimit = over_fetch (Limit q)\<rparr>"
  let ?w = "window (rank (uuid_Parse E)) (map_option (cursor_rank (uuid_Parse E) (timestamptz E)) (After q)) (pg_listing E db)"
  have params: "(case After q of
              None \<Rightarrow> Inr \<lparr>AfterCreatedAt = None, AfterID = None, PageLimit = over_fetch (Limit q)\<rparr>
            | Some c \<Rightarrow>
                (case uuid_Parse E (cur_ID c) of
                   None \<Rightarrow> Inl (Errorf ''parse cursor id %q: %w'' [cur_ID c] ErrInvalidCursor)
                 | Some u \<Rightarrow> Inr \<lparr>AfterCreatedAt = Some (timestamptz E (cur_CreatedAt c)), AfterID = Some u,
                                 PageLimit = over_fetch (Limit q)\<rparr>)) = (Inr ?p :: list_params result)"
    using False by (auto split: option.splits)
  show ?thesis
  proof (cases rule: next_fault_cases [of db])
    case (fail db1 msg f)
    with params assms(4) show ?thesis by (auto simp: pg_List_def ListTodos_def)
  next
    case (ok db1)
    let ?rows = "take (Suc ?n) (sort_key row_key (filter (row_after ?p) (map snd (table_todos db))))"
    have limit: "nat (sint (over_fetch (Limit q))) = Suc ?n" "\<not> sint (over_fetch (Limit q)) < 0"
      using over_fetch_exact [OF assms(2,3)] assms(2) by auto
    have key: "(\<lambda>r. (row_CreatedAt r, row_ID r)) = row_key" by (simp add: row_key_def fun_eq_iff)
    have rows: "ListTodos ?p db = (Inr ?rows, db1)"
      using ok limit by (simp add: ListTodos_def key)
    have "Valid (row_Status x)" if "x \<in> set ?rows" for x
      using that pg_row_mem [OF assms(1), of x] by (auto simp: row_ok_def dest!: in_set_takeD)
    then have from_rows: "fromRows E ?rows = Inr (take (Suc ?n) ?w)"
      using pg_rows_window [OF assms(1), of ?p "After q"]
      by (simp add: fromRows_valid take_map [symmetric])
    have lim: "Limit q < int k \<longleftrightarrow> ?n < k" for k using assms(2) by linarith
    have "pg_List E q db = (Inr (if length (take (Suc ?n) ?w) > ?n
         then \<lparr>Todos = take ?n (take (Suc ?n) ?w), Next = Some (cursor_of (take (Suc ?n) ?w ! (?n - 1)))\<rparr>
         else \<lparr>Todos = take (Suc ?n) ?w, Next = None\<rparr>), db1)"
      unfolding pg_List_def params using rows from_rows assms(2)
      by (simp add: Let_def cursor_of_def lim del: length_take take_take)
    also have "\<dots> = (Inr (list_spec (uuid_Parse E) (timestamptz E) q (pg_listing E db)), db1)"
      using assms(2) by (subst page_of_over_fetch) (auto simp: list_spec_def keyset_page_def Let_def)
    finally show ?thesis using assms(4) by simp
  qed
qed

lemma pg_repo_sel [simp]: "Save (pg_repo E) = pg_Save E" "FindByID (pg_repo E) = pg_FindByID E" "List (pg_repo E) = pg_List E"
  by (simp_all add: pg_repo_def)

lemma pg_contents_fields:
  assumes "pg_inv E db" and "pg_contents E db u = Some t"
  shows "uuid_Parse E (ID t) = Some u \<and> timestamptz E (CreatedAt t) = CreatedAt t \<and> text_ok E (Title t)"
proof -
  from assms(2) obtain r where r: "map_of (table_todos db) u = Some r" "t = to_todo E r"
    by (auto simp: pg_contents_def)
  moreover have "uuid_Parse E (uuid_String E u) = Some u"
    using assms(1) by (simp add: pg_inv_def env_ok_def)
  ultimately show ?thesis
    using pg_row [OF assms(1) r(1)] by (simp add: to_todo_def row_ok_def)
qed

lemma set_pg_listing: "pg_inv E db \<Longrightarrow> set (pg_listing E db) = ran (pg_contents E db)"
proof -
  assume "pg_inv E db"
  then have "snd ` set (table_todos db) = ran (map_of (table_todos db))"
    by (simp add: pg_inv_def ran_distinct)
  then have "set (pg_listing E db) = to_todo E ` ran (map_of (table_todos db))"
    by (simp add: pg_listing_def)
  also have "\<dots> = ran (pg_contents E db)"
    by (auto simp: ran_def pg_contents_def)
  finally show ?thesis .
qed

interpretation pg: todo_repository "pg_repo E" "pg_inv E" pg_healthy "pg_contents E" "pg_listing E"
  "uuid_Parse E" "timestamptz E" "pg_stored E" "pg_storable E" for E
proof (unfold_locales, goal_cases)
  case (1 s i t)
  then show ?case using pg_contents_fields by blast
next
  case (2 s)
  then show ?case by (rule set_pg_listing)
next
  case (3 s)
  then show ?case by (rule pg_listing_sorted)
next
  case (4 s t)
  then show ?case by (auto simp: pg_stored_def pg_inv_def env_ok_def pg_storable_def)
next
  case (5 s t)
  then have "uuid_Parse E (uuid_String E u) = Some u" "timestamptz E (timestamptz E x) = timestamptz E x" for u x
    by (simp_all add: pg_inv_def env_ok_def)
  then show ?case by (simp add: pg_stored_def option.map_comp comp_def)
next
  case (6 t)
  then show ?case by (auto simp: pg_storable_def)
next
  case (7 s i t u)
  then show ?case using pg_contents_fields [of E s i t] by (auto simp: pg_storable_def)
next
  case (8 s t er s')
  then show ?case using pg_Save_spec by simp
next
  case (9 s t s')
  then show ?case using pg_Save_spec [of E s t None s'] by simp
next
  case (10 s t e s')
  then show ?case using pg_Save_spec [of E s t "Some e" s'] by simp
next
  case (11 s t)
  obtain er s' where "pg_Save E t s = (er, s')" by fastforce
  with 11 show ?case using pg_Save_spec [of E s t er s'] by auto
next
  case (12 s x fr s')
  then have "table_todos s' = table_todos s" using pg_FindByID_spec by simp
  from pg_congs [OF this, of E] 12 show ?case by simp
next
  case (13 s x t s')
  then show ?case using pg_FindByID_spec [of E s x "Inr t" s'] by simp
next
  case (14 s x e s')
  then show ?case using pg_FindByID_spec [of E s x "Inl e" s'] by auto
next
  case (15 s x fr s')
  then show ?case using pg_FindByID_spec [of E s x fr s'] by auto
next
  case (16 s q lr s')
  then have "table_todos s' = table_todos s" using pg_List_frame by simp
  from pg_congs [OF this, of E] 16 show ?case by simp
next
  case (17 s q p s')
  then show ?case using pg_List_spec [of E s q "Inr p" s'] by auto
next
  case (18 s q e s')
  then show ?case using pg_List_spec [of E s q "Inl e" s'] by auto
next
  case (19 s q lr s')
  then show ?case using pg_List_spec [of E s q lr s'] pg_List_frame [of E q s lr s'] by auto
qed

section \<open>A concrete environment\<close>

text \<open>
  An instance of the environment in which the assumptions hold: ids in decimal, instants cut to
  microseconds, no NUL bytes in text.
\<close>

definition decimal_env :: pg_env where
  "decimal_env = \<lparr>
     uuid_Parse = (\<lambda>s. let n = of_digits 0 s in
        if s = digits_of n \<and> n < 2 ^ 128 then Some (of_nat n) else None),
     uuid_String = (\<lambda>u. digits_of (unat u)),
     timestamptz = (\<lambda>t. (t div 1000) * 1000),
     text_ok = (\<lambda>s. CHR 0x00 \<notin> set s)\<rparr>"

lemma env_ok_decimal [simp]: "env_ok decimal_env"
proof -
  have "unat u < 2 ^ 128" for u :: uuid using unsigned_less [of u, where ?'a = nat] by simp
  then show ?thesis by (simp add: env_ok_def decimal_env_def of_digits_digits_of Let_def)
qed

definition decimal_db :: pg_db where
  "decimal_db = \<lparr>table_todos =
      [(7, \<lparr>row_ID = 7, row_Title = ''b'', row_Status = ''open'', row_CreatedAt = 2000, row_CompletedAt = None\<rparr>),
       (5, \<lparr>row_ID = 5, row_Title = ''a'', row_Status = ''open'', row_CreatedAt = 2000, row_CompletedAt = None\<rparr>),
       (9, \<lparr>row_ID = 9, row_Title = ''c'', row_Status = ''completed'', row_CreatedAt = 1000, row_CompletedAt = Some 3000\<rparr>)],
      faults = []\<rparr>"

lemma pg_inv_decimal [simp]: "pg_inv decimal_env decimal_db"
  by (simp add: pg_inv_def decimal_db_def row_ok_def Valid_def go_defs) (simp add: decimal_env_def)

lemma pg_healthy_decimal [simp]: "pg_healthy decimal_db"
  by (simp add: pg_healthy_def decimal_db_def)

lemma pg_listing_decimal: "map ID (pg_listing decimal_env decimal_db) = [''9'', ''5'', ''7'']"
  by (simp add: pg_listing_def decimal_db_def to_todo_def row_key_def decimal_env_def
      less_eq_prod_def digits_of.simps)

section \<open>Properties\<close>

text \<open>The over-fetch of one row wraps around only for limits no caller of the service can give.\<close>

lemma over_fetch_bounds:
  "0 < n \<Longrightarrow> n \<le> MaxPageSize \<Longrightarrow> sint (over_fetch n) = n + 1 \<and> 1 < sint (over_fetch n)
     \<and> sint (over_fetch n) \<le> 101 \<and> sint (over_fetch (2 ^ 31 - 1)) = - (2 ^ 31)"
  using over_fetch_exact [of n] by (simp add: MaxPageSize_def sint_over_fetch)

end
