(* ===== verification/TodoService.thy ===== *)
theory TodoService
  imports TodoMemory TodoPostgres
begin

text \<open>
  The use-case service of \<open>internal/todo/service.go\<close>.  Each method takes the repository it was
  constructed with, the values its injected \<open>newID\<close> and \<open>now\<close> functions return at that call, and
  the state of the store.  The lines the methods log are added by the service object of
  \<open>TodoUseCases\<close>; they have no effect on the results.

  The client lemmas are proved once in the context of \<open>todo_repository\<close> and reach the in-memory and
  the PostgreSQL store through the interpretations \<open>mem\<close> and \<open>pg\<close>.  \<open>svc_step\<close> interleaves the
  repository calls of concurrent requests.
\<close>

section \<open>Operations\<close>

definition Service_Create :: "'s repository \<Rightarrow> string \<Rightarrow> time \<Rightarrow> string \<Rightarrow> 's \<Rightarrow> todo result \<times> 's" where
  "Service_Create R new_id now title s =
     (case NewTodo new_id title now of
        Inl e \<Rightarrow> (Inl e, s)
      | Inr created \<Rightarrow>
          (case Save R created s of
             (Some e, s') \<Rightarrow> (Inl (Errorf ''save todo: %w'' [] e), s')
           | (None, s') \<Rightarrow> (Inr created, s')))"

definition Service_Get :: "'s repository \<Rightarrow> string \<Rightarrow> 's \<Rightarrow> todo result \<times> 's" where
  "Service_Get R i s =
     (case FindByID R i s of
        (Inl e, s') \<Rightarrow> (Inl (Errorf ''find todo: %w'' [] e), s')
      | (Inr found, s') \<Rightarrow> (Inr found, s'))"

definition clampLimit :: "int \<Rightarrow> int" where
  "clampLimit limit =
     (if limit \<le> 0 then DefaultPageSize else if limit > MaxPageSize then MaxPageSize else limit)"

definition Service_List :: "'s repository \<Rightarrow> page_query \<Rightarrow> 's \<Rightarrow> page_result result \<times> 's" where
  "Service_List R page s =
     (case List R (page\<lparr>Limit := clampLimit (Limit page)\<rparr>) s of
        (Inl e, s') \<Rightarrow> (Inl (Errorf ''list todos: %w'' [] e), s')
      | (Inr result, s') \<Rightarrow> (Inr result, s'))"

definition Service_Complete :: "'s repository \<Rightarrow> time \<Rightarrow> string \<Rightarrow> 's \<Rightarrow> todo result \<times> 's" where
  "Service_Complete R now i s =
     (case FindByID R i s of
        (Inl e, s') \<Rightarrow> (Inl (Errorf ''find todo: %w'' [] e), s')
      | (Inr found, s') \<Rightarrow>
          (let completed = Complete found now in
           case Save R completed s' of
             (Some e, s'') \<Rightarrow> (Inl (Errorf ''save todo: %w'' [] e), s'')
           | (None, s'') \<Rightarrow> (Inr completed, s'')))"

text \<open>A request as the service sees it, and a sequence of requests served one after the other.\<close>

datatype svc_call =
    CallCreate string time string
  | CallGet string
  | CallList page_query
  | CallComplete time string

fun svc_serve :: "'s repository \<Rightarrow> svc_call \<Rightarrow> 's \<Rightarrow> 's" where
  "svc_serve R (CallCreate new_id now title) s = snd (Service_Create R new_id now title s)"
| "svc_serve R (CallGet i) s = snd (Service_Get R i s)"
| "svc_serve R (CallList q) s = snd (Service_List R q s)"
| "svc_serve R (CallComplete now i) s = snd (Service_Complete R now i s)"

section \<open>Interleaved requests\<close>

text \<open>
  Requests run concurrently; a repository call is the atomic unit.  \<open>Complete\<close> makes two such calls,
  so between its read and its write other requests may run: \<open>in_flight\<close> holds the completed todos
  that are read and not yet written back.  \<open>fresh\<close> is the assumption on the id generator.
\<close>

record 's svc_state =
  svc_store :: 's
  in_flight :: "todo list"

inductive svc_step :: "'s repository \<Rightarrow> (string \<Rightarrow> 's \<Rightarrow> bool) \<Rightarrow> 's svc_state \<Rightarrow> 's svc_state \<Rightarrow> bool"
  for R fresh where
  step_create: "NewTodo i title now = Inr t \<Longrightarrow> fresh i (svc_store S) \<Longrightarrow> Save R t (svc_store S) = (r, s') \<Longrightarrow>
     svc_step R fresh S (S\<lparr>svc_store := s'\<rparr>)"
| step_get: "FindByID R x (svc_store S) = (f, s') \<Longrightarrow> svc_step R fresh S (S\<lparr>svc_store := s'\<rparr>)"
| step_list: "List R q (svc_store S) = (l, s') \<Longrightarrow> svc_step R fresh S (S\<lparr>svc_store := s'\<rparr>)"
| step_complete_read: "FindByID R x (svc_store S) = (Inr t, s') \<Longrightarrow>
     svc_step R fresh S (S\<lparr>svc_store := s', in_flight := Complete t now # in_flight S\<rparr>)"
| step_complete_write: "t \<in> set (in_flight S) \<Longrightarrow> Save R t (svc_store S) = (r, s') \<Longrightarrow>
     svc_step R fresh S (S\<lparr>svc_store := s', in_flight := remove1 t (in_flight S)\<rparr>)"

inductive svc_reach :: "'s repository \<Rightarrow> (string \<Rightarrow> 's \<Rightarrow> bool) \<Rightarrow> 's svc_state \<Rightarrow> 's svc_state \<Rightarrow> bool"
  for R fresh S0 where
  reach_refl: "svc_reach R fresh S0 S0"
| reach_step: "svc_reach R fresh S0 S \<Longrightarrow> svc_step R fresh S S' \<Longrightarrow> svc_reach R fresh S0 S'"

section \<open>Client lemmas of the port\<close>

definition all_wf :: "('i \<rightharpoonup> todo) \<Rightarrow> bool" where
  "all_wf m \<longleftrightarrow> (\<forall>t \<in> ran m. todo_wf t)"

text \<open>\<open>t'\<close> is what may have become of \<open>t\<close>: same identity, and completed if \<open>t\<close> was.\<close>

definition evolves :: "todo \<Rightarrow> todo \<Rightarrow> bool" where
  "evolves t t' \<longleftrightarrow> Title t' = Title t \<and> CreatedAt t' = CreatedAt t
     \<and> (Status t = StatusCompleted \<longrightarrow> Status t' = StatusCompleted)"

lemma evolves_refl [simp]: "evolves t t"
  by (simp add: evolves_def)

lemma evolves_trans: "evolves t u \<Longrightarrow> evolves u v \<Longrightarrow> evolves t v"
  by (auto simp: evolves_def)

lemma clampLimit_range: "0 < clampLimit n \<and> clampLimit n \<le> MaxPageSize"
  by (simp add: clampLimit_def go_defs)

lemma all_wf_upd: "all_wf m \<Longrightarrow> todo_wf t \<Longrightarrow> all_wf (m(i \<mapsto> t))"
  by (auto simp: all_wf_def ran_def)

context todo_repository
begin

lemma stored_wf: "inv s \<Longrightarrow> storable t \<Longrightarrow> todo_wf t \<Longrightarrow> todo_wf (stored t)"
  using stored_fields by (fastforce simp: todo_wf_def)

lemma Save_cases:
  assumes "inv s" and "Save R t s = (er, s')"
  obtains (kept) "inv s'" "contents s' = contents s" "er \<noteq> None"
  | (written) "inv s'" "storable t" "contents s' = (contents s)(the (pos (ID t)) \<mapsto> stored t)"
proof (cases er)
  case None
  with assms Save_ok [of s t s'] Save_inv written show ?thesis by blast
next
  case (Some e)
  with assms Save_err [of s t e s'] Save_inv kept written show ?thesis by blast
qed

lemma Save_all_wf:
  assumes "inv s" and "all_wf (contents s)" and "todo_wf t" and "Save R t s = (er, s')"
  shows "inv s' \<and> all_wf (contents s')"
  using assms(1,4)
proof (cases rule: Save_cases)
  case kept
  with assms show ?thesis by simp
next
  case written
  with assms show ?thesis using stored_wf [OF assms(1)] by (simp add: all_wf_upd)
qed

lemma Find_wf:
  assumes "inv s" and "all_wf (contents s)" and "FindByID R x s = (Inr t, s')"
  shows "todo_wf t" and "\<exists>i. pos x = Some i \<and> contents s i = Some t"
  using Find_ok [OF assms(1,3)] assms(2) by (auto simp: all_wf_def ran_def bind_eq_Some_conv)

text \<open>Every request, whatever its outcome, leaves a store of well-formed todos.\<close>

lemma svc_serve_all_wf:
  assumes "inv s" and "all_wf (contents s)"
  shows "inv (svc_serve R c s) \<and> all_wf (contents (svc_serve R c s))"
proof (cases c)
  case (CallCreate new_id now title)
  show ?thesis
  proof (cases "NewTodo new_id title now")
    case (Inl e)
    with CallCreate assms show ?thesis by (simp add: Service_Create_def)
  next
    case (Inr t)
    obtain er s' where "Save R t s = (er, s')" by fastforce
    with CallCreate Inr Save_all_wf [OF assms, of t] NewTodo_wf [OF Inr] show ?thesis
      by (auto simp: Service_Create_def split: option.splits)
  qed
next
  case (CallGet i)
  obtain r s' where "FindByID R i s = (r, s')" by fastforce
  with CallGet Find_frame [OF assms(1)] assms show ?thesis
    by (auto simp: Service_Get_def split: sum.splits)
next
  case (CallList q)
  obtain r s' where "List R (q\<lparr>Limit := clampLimit (Limit q)\<rparr>) s = (r, s')" by fastforce
  with CallList List_frame [OF assms(1)] assms show ?thesis
    by (auto simp: Service_List_def split: sum.splits)
next
  case (CallComplete now i)
  obtain r s1 where F: "FindByID R i s = (r, s1)" by fastforce
  have frame: "inv s1" "all_wf (contents s1)" using Find_frame [OF assms(1) F] assms(2) by auto
  show ?thesis
  proof (cases r)
    case (Inl e)
    with CallComplete F frame show ?thesis by (simp add: Service_Complete_def)
  next
    case (Inr t)
    obtain er s2 where S: "Save R (Complete t now) s1 = (er, s2)" by fastforce
    have "todo_wf (Complete t now)"
      using Find_wf(1) [OF assms] F Inr by (simp add: Complete_wf)
    from Save_all_wf [OF frame this S] CallComplete F Inr S show ?thesis
      by (auto simp: Service_Complete_def Let_def split: option.splits)
  qed
qed

text \<open>A page never has more than \<open>MaxPageSize\<close> todos, whatever limit was asked for.\<close>

lemma Service_List_page:
  assumes "inv s" and "Service_List R q s = (Inr p, s')"
  shows "p = list_spec pos ts (q\<lparr>Limit := clampLimit (Limit q)\<rparr>) (listing s)"
    and "int (length (Todos p)) \<le> clampLimit (Limit q)"
proof -
  from assms(2) have "List R (q\<lparr>Limit := clampLimit (Limit q)\<rparr>) s = (Inr p, s')"
    by (auto simp: Service_List_def split: sum.splits prod.splits)
  from List_ok [OF assms(1) _ _ this] clampLimit_range
  show p: "p = list_spec pos ts (q\<lparr>Limit := clampLimit (Limit q)\<rparr>) (listing s)" by simp
  obtain ys k where "keyset_page (rank pos) (nat (clampLimit (Limit q)))
      (map_option (cursor_rank pos ts) (After q)) (listing s) = (ys, k)" by fastforce
  with p keyset_page_length clampLimit_range [of "Limit q"]
  show "int (length (Todos p)) \<le> clampLimit (Limit q)"
    by (fastforce simp: list_spec_def split: option.splits)
qed

text \<open>Following \<open>Next\<close> through the service visits the whole store.\<close>

lemma service_walk_eq:
  assumes "0 < n" and "n \<le> MaxPageSize"
    and "repo_walk (List R) n fuel c s = (Some (Inr ps), s')"
  shows "repo_walk (Service_List R) n fuel c s = (Some (Inr ps), s')"
  using assms(3)
proof (induction fuel arbitrary: c s ps)
  case 0
  then show ?case by simp
next
  case (Suc fuel)
  have clamp: "clampLimit n = n" using assms(1,2) by (simp add: clampLimit_def)
  obtain r s1 where L: "List R \<lparr>Limit = n, After = c\<rparr> s = (r, s1)" by fastforce
  with Suc.prems obtain p where r: "r = Inr p" by (cases r) auto
  have S: "Service_List R \<lparr>Limit = n, After = c\<rparr> s = (Inr p, s1)"
    using L r by (simp add: Service_List_def clamp)
  show ?case
  proof (cases "Next p")
    case None
    with Suc.prems L r S show ?thesis by simp
  next
    case (Some c')
    with Suc.prems L r obtain ps' where
      "repo_walk (List R) n fuel (Some c') s1 = (Some (Inr ps'), s')" "ps = Todos p # ps'"
      by (auto split: prod.splits option.splits sum.splits)
    with Suc.IH S Some show ?thesis by simp
  qed
qed

lemma service_walk_all:
  assumes "inv s" and "healthy s" and "0 < n" and "n \<le> MaxPageSize" and "length (listing s) < fuel"
  shows "\<exists>ps s'. repo_walk (Service_List R) n fuel None s = (Some (Inr ps), s')
           \<and> concat ps = listing s \<and> (\<forall>p \<in> set ps. int (length p) \<le> n)"
  using repo_walk_all [OF assms] service_walk_eq [OF assms(3,4)] by blast

text \<open>What was created can be read back, as the store keeps it.\<close>

lemma create_then_get:
  assumes "inv s" and "healthy s" and "NewTodo new_id title now = Inr t" and "storable t"
  shows "\<exists>s' s''. Service_Create R new_id now title s = (Inr t, s')
           \<and> contents s' = (contents s)(the (pos new_id) \<mapsto> stored t)
           \<and> Service_Get R new_id s' = (Inr (stored t), s'')"
proof -
  have "ID t = new_id" using NewTodo_wf [OF assms(3)] by simp
  obtain s' where s': "Save R t s = (None, s')" "healthy s'"
    using Save_healthy [OF assms(1,2,4)] by blast
  then have inv': "inv s'" and c': "contents s' = (contents s)(the (pos new_id) \<mapsto> stored t)"
    using Save_ok [OF assms(1)] Save_inv [OF assms(1)] \<open>ID t = new_id\<close> by auto
  obtain i where "pos new_id = Some i" using storable_pos [OF assms(4)] \<open>ID t = new_id\<close> by auto
  with c' have bound: "Option.bind (pos new_id) (contents s') = Some (stored t)" by simp
  obtain r s'' where F: "FindByID R new_id s' = (r, s'')" by fastforce
  have "r = Inr (stored t)"
  proof (cases r)
    case (Inl e)
    with F have "\<not> backend_failure e" using Find_healthy [OF inv' s'(2)] by blast
    with Find_err [OF inv'] F Inl bound show ?thesis by fastforce
  next
    case (Inr u)
    with Find_ok [OF inv'] F bound show ?thesis by simp
  qed
  with F s' c' assms(3) show ?thesis
    by (simp add: Service_Create_def Service_Get_def)
qed

lemma get_missing:
  assumes "inv s" and "healthy s" and "Option.bind (pos x) (contents s) = None"
  shows "\<exists>e s'. Service_Get R x s = (Inl e, s') \<and> Service_Complete R now x s = (Inl e, s')
          \<and> errors_Is e ErrNotFound \<and> contents s' = contents s"
proof -
  obtain r s' where F: "FindByID R x s = (r, s')" by fastforce
  then have "r = Inl ErrNotFound"
    using Find_ok [OF assms(1)] Find_err [OF assms(1)] Find_healthy [OF assms(1,2)] assms(3)
    by (cases r) force+
  with F Find_frame [OF assms(1)] show ?thesis
    by (auto simp: Service_Get_def Service_Complete_def)
qed

lemma complete_healthy:
  assumes "inv s" and "healthy s" and "pos x = Some i" and "contents s i = Some t"
  shows "\<exists>s'. Service_Complete R now x s = (Inr (Complete t now), s') \<and> inv s' \<and> healthy s'
           \<and> contents s' = (contents s)(i \<mapsto> stored (Complete t now)) \<and> storable (Complete t now)"
proof -
  have bound: "Option.bind (pos x) (contents s) = Some t" using assms by simp
  obtain r s1 where F: "FindByID R x s = (r, s1)" by fastforce
  then have r: "r = Inr t" and h1: "healthy s1"
    using Find_ok [OF assms(1)] Find_err [OF assms(1)] Find_healthy [OF assms(1,2)] bound
    by (cases r; force)+
  have s1: "inv s1" "contents s1 = contents s" using Find_frame [OF assms(1) F] by auto
  have st: "storable (Complete t now)"
    using stored_storable [OF assms(1,4)] by (simp add: Valid_def)
  obtain s' where "Save R (Complete t now) s1 = (None, s')" "healthy s'"
    using Save_healthy [OF s1(1) h1 st] by blast
  moreover have "the (pos (ID t)) = i" using contents_pos [OF assms(1,4)] by simp
  ultimately show ?thesis
    using F r s1 st Save_ok [OF s1(1)] Save_inv [OF s1(1)]
    by (auto simp: Service_Complete_def)
qed

text \<open>A second \<open>Complete\<close> returns what the first one stored and changes nothing.\<close>

lemma complete_twice:
  assumes "inv s" and "healthy s" and "pos x = Some i" and "contents s i = Some t"
  shows "\<exists>s1 s2. Service_Complete R now x s = (Inr (Complete t now), s1)
           \<and> Service_Complete R later x s1 = (Inr (stored (Complete t now)), s2)
           \<and> contents s2 = contents s1"
proof -
  from complete_healthy [OF assms] obtain s1 where
    s1: "Service_Complete R now x s = (Inr (Complete t now), s1)" "inv s1" "healthy s1"
      "contents s1 = (contents s)(i \<mapsto> stored (Complete t now))" "storable (Complete t now)" by blast
  let ?u = "stored (Complete t now)"
  have stable: "Complete ?u later = ?u"
    using stored_fields [OF s1(2,5)] by (simp add: Complete_def [of ?u])
  from complete_healthy [OF s1(2,3) assms(3), of ?u later] s1(4) obtain s2 where
    "Service_Complete R later x s1 = (Inr (Complete ?u later), s2)"
    "contents s2 = (contents s1)(i \<mapsto> stored (Complete ?u later))" by auto
  with stable stored_idem [OF s1(2,5)] s1 show ?thesis by auto
qed

end

section \<open>Interleavings\<close>

text \<open>
  The invariant of interleaved runs: the store is well-formed, and every todo in flight is completed
  and still agrees with the stored one on what never changes.
\<close>

definition svc_inv :: "('s \<Rightarrow> bool) \<Rightarrow> ('s \<Rightarrow> 'i \<rightharpoonup> todo) \<Rightarrow> (string \<Rightarrow> 'i option) \<Rightarrow> 's svc_state \<Rightarrow> bool" where
  "svc_inv ok cts ps S \<longleftrightarrow> ok (svc_store S) \<and> all_wf (cts (svc_store S))
     \<and> (\<forall>t \<in> set (in_flight S). todo_wf t \<and> Status t = StatusCompleted
          \<and> (\<exists>i u. ps (ID t) = Some i \<and> cts (svc_store S) i = Some u
                 \<and> Title t = Title u \<and> CreatedAt t = CreatedAt u))"

text \<open>The abstract store only evolves: nothing disappears, nothing is reopened.\<close>

definition store_evolves :: "('i \<rightharpoonup> todo) \<Rightarrow> ('i \<rightharpoonup> todo) \<Rightarrow> bool" where
  "store_evolves m m' \<longleftrightarrow> (\<forall>i t. m i = Some t \<longrightarrow> (\<exists>t'. m' i = Some t' \<and> evolves t t'))"

lemma store_evolves_refl [simp]: "store_evolves m m"
  by (simp add: store_evolves_def)

lemma store_evolves_trans: "store_evolves m m' \<Longrightarrow> store_evolves m' m'' \<Longrightarrow> store_evolves m m''"
  unfolding store_evolves_def by (meson evolves_trans)

lemma svc_inv_frame:
  assumes "svc_inv ok cts ps S" and "ok s'" and "all_wf (cts s')" and "store_evolves (cts (svc_store S)) (cts s')"
    and "set fl \<subseteq> set (in_flight S)"
  shows "svc_inv ok cts ps (S\<lparr>svc_store := s', in_flight := fl\<rparr>)"
  using assms unfolding svc_inv_def store_evolves_def evolves_def by fastforce

context todo_repository
begin

abbreviation fresh_id :: "string \<Rightarrow> 's \<Rightarrow> bool" where
  "fresh_id i s \<equiv> Option.bind (pos i) (contents s) = None"

lemma svc_step_inv:
  assumes "svc_step R fresh_id S S'" and "svc_inv inv contents pos S"
  shows "svc_inv inv contents pos S' \<and> store_evolves (contents (svc_store S)) (contents (svc_store S'))"
  using assms
proof (cases rule: svc_step.cases)
  case (step_create i title now t r s')
  have I: "inv (svc_store S)" "all_wf (contents (svc_store S))" using assms(2) by (auto simp: svc_inv_def)
  note t = NewTodo_wf [OF step_create(2)]
  have wf: "inv s'" "all_wf (contents s')"
    using Save_all_wf [OF I _ step_create(4)] t by auto
  have "store_evolves (contents (svc_store S)) (contents s')"
    using I(1) step_create(4)
  proof (cases rule: Save_cases)
    case written
    with t step_create(3) storable_pos [of t] show ?thesis
      by (auto simp: store_evolves_def)
  qed simp
  with svc_inv_frame [OF assms(2) wf this, of "in_flight S"] step_create(1) show ?thesis by simp
next
  case (step_get x f s')
  with Find_frame [of "svc_store S" x f s'] assms(2) show ?thesis by (auto simp: svc_inv_def)
next
  case (step_list q l s')
  with List_frame [of "svc_store S" q l s'] assms(2) show ?thesis by (auto simp: svc_inv_def)
next
  case (step_complete_read x t s' now)
  have I: "inv (svc_store S)" "all_wf (contents (svc_store S))" using assms(2) by (auto simp: svc_inv_def)
  have fr: "inv s'" "contents s' = contents (svc_store S)" using Find_frame [OF I(1) step_complete_read(2)] by auto
  from Find_wf [OF I step_complete_read(2)] obtain i where
    "todo_wf t" "contents (svc_store S) i = Some t" by blast
  moreover have "pos (ID t) = Some i" using contents_pos [OF I(1)] calculation by blast
  ultimately have "todo_wf (Complete t now) \<and> (\<exists>i u. pos (ID (Complete t now)) = Some i
      \<and> contents (svc_store S) i = Some u \<and> Title (Complete t now) = Title u \<and> CreatedAt (Complete t now) = CreatedAt u)"
    by (auto simp: Complete_wf)
  with assms(2) fr step_complete_read(1) show ?thesis by (auto simp: svc_inv_def)
next
  case (step_complete_write t r s')
  have I: "inv (svc_store S)" "all_wf (contents (svc_store S))" using assms(2) by (auto simp: svc_inv_def)
  from assms(2) step_complete_write(2) obtain i u where
    t: "todo_wf t" "Status t = StatusCompleted" "pos (ID t) = Some i" "contents (svc_store S) i = Some u"
       "Title t = Title u" "CreatedAt t = CreatedAt u" unfolding svc_inv_def by blast
  have wf: "inv s'" "all_wf (contents s')" using Save_all_wf [OF I t(1) step_complete_write(3)] by auto
  have "store_evolves (contents (svc_store S)) (contents s')"
    using I(1) step_complete_write(3)
  proof (cases rule: Save_cases)
    case written
    have "evolves u (stored t)"
      using stored_fields [OF I(1) written(2)] t contents_pos [OF I(1) t(4)] by (simp add: evolves_def)
    with written t show ?thesis by (auto simp: store_evolves_def)
  qed simp
  from svc_inv_frame [OF assms(2) wf this set_remove1_subset] this step_complete_write(1) show ?thesis by simp
qed

lemma svc_reach_inv:
  assumes "svc_reach R fresh_id S0 S" and "svc_inv inv contents pos S0"
  shows "svc_inv inv contents pos S \<and> store_evolves (contents (svc_store S0)) (contents (svc_store S))"
  using assms
proof (induction rule: svc_reach.induct)
  case reach_refl
  then show ?case by simp
next
  case (reach_step S S')
  then show ?case using svc_step_inv store_evolves_trans by blast
qed

end

section \<open>Properties\<close>

text \<open>
  C9. Paging through the PostgreSQL store is complete: on a store that does not fail, a client that
  asks the service for pages of any size from 1 to 100 and follows the returned cursors reaches the
  last page, and the pages together are exactly the stored todos, each once, in
  \<open>(created_at, id)\<close> order; no page exceeds the requested size.  As many page requests as there are
  todos, plus one, are enough.
\<close>

theorem pg_pagination_complete:
  assumes "pg_inv E db" and "pg_healthy db" and "0 < n" and "n \<le> MaxPageSize"
    and "length (table_todos db) < fuel"
  shows "\<exists>ps db'. repo_walk (Service_List (pg_repo E)) n fuel None db = (Some (Inr ps), db')
     \<and> concat ps = pg_listing E db \<and> set (concat ps) = ran (pg_contents E db) \<and> distinct (concat ps)
     \<and> sorted (map CreatedAt (concat ps)) \<and> (\<forall>p \<in> set ps. int (length p) \<le> n)"
proof -
  have sorted: "strictly_sorted (rank (uuid_Parse E)) (pg_listing E db)" by (rule pg_listing_sorted [OF assms(1)])
  then have "distinct (pg_listing E db)" by (rule strictly_sorted_distinct)
  moreover have "sorted (map CreatedAt (pg_listing E db))"
    using sorted by (auto simp: sorted_map rank_def less_prod_def elim!: sorted_wrt_mono_rel [rotated])
  moreover have "length (pg_listing E db) < fuel" using assms(5) by (simp add: pg_listing_def)
  ultimately show ?thesis
    using pg.service_walk_all [OF assms(1-4)] set_pg_listing [OF assms(1)] by metis
qed

theorem pg_pagination_complete_witness:
  "\<exists>ps db'. repo_walk (Service_List (pg_repo decimal_env)) 2 4 None decimal_db = (Some (Inr ps), db')
     \<and> map ID (concat ps) = [''9'', ''5'', ''7'']"
proof -
  have "length (table_todos decimal_db) < 4" by (simp add: decimal_db_def)
  moreover have "(2::int) \<le> MaxPageSize" by (simp add: MaxPageSize_def)
  ultimately show ?thesis
    using pg_pagination_complete [OF pg_inv_decimal pg_healthy_decimal, of 2 4] pg_listing_decimal by auto
qed

text \<open>
  C15. Well-formedness is an invariant of the whole service on the PostgreSQL store: after any
  sequence of create, get, list and complete requests, with any pattern of backend failures, every
  stored todo has a trimmed, non-empty title of at most 200 runes and a completion time exactly when
  it is completed, and the table invariant still holds.
\<close>

theorem pg_requests_preserve_wf:
  assumes "pg_inv E db" and "all_wf (pg_contents E db)"
  shows "pg_inv E (fold (svc_serve (pg_repo E)) calls db)
     \<and> all_wf (pg_contents E (fold (svc_serve (pg_repo E)) calls db))"
  using assms
proof (induction calls arbitrary: db)
  case Nil
  then show ?case by simp
next
  case (Cons c calls)
  then show ?case using pg.svc_serve_all_wf [of E db c] by simp
qed

lemma all_wf_empty [simp]: "all_wf (pg_contents E \<lparr>table_todos = [], faults = fs\<rparr>)"
  by (simp add: all_wf_def pg_contents_def ran_def)

theorem pg_requests_preserve_wf_witness:
  "all_wf (pg_contents decimal_env (fold (svc_serve (pg_repo decimal_env))
     [CallCreate ''7'' 5000 '' buy milk '', CallComplete 6000 ''7'', CallCreate ''8'' 5000 ''x'']
     \<lparr>table_todos = [], faults = [NoFault, NoFault, FailAfter ''gone'']\<rparr>))"
proof -
  have "pg_inv decimal_env \<lparr>table_todos = [], faults = [NoFault, NoFault, FailAfter ''gone'']\<rparr>"
    using env_ok_decimal by (simp add: pg_inv_def)
  from pg_requests_preserve_wf [OF this all_wf_empty] show ?thesis by blast
qed

text \<open>
  C16. Read-your-writes through the service on the PostgreSQL store: a valid title is created, and
  reading the new id back yields the same todo with its instants at the resolution of the database
  (which is therefore not always the value \<open>Create\<close> returned); nothing else in the store changes.
\<close>

theorem pg_create_then_get:
  assumes "pg_inv E db" and "pg_healthy db" and "NewTodo new_id title now = Inr t" and "pg_storable E t"
  shows "\<exists>db' db''. Service_Create (pg_repo E) new_id now title db = (Inr t, db')
     \<and> Service_Get (pg_repo E) new_id db' = (Inr (pg_stored E t), db'')
     \<and> Title (pg_stored E t) = TrimSpace title \<and> CreatedAt (pg_stored E t) = timestamptz E now
     \<and> (\<forall>u. Some u \<noteq> uuid_Parse E new_id \<longrightarrow> pg_contents E db' u = pg_contents E db u)"
proof -
  from NewTodo_wf [OF assms(3)] have "Title (pg_stored E t) = TrimSpace title \<and> CreatedAt (pg_stored E t) = timestamptz E now \<and> ID t = new_id"
    using assms(3) by (cases rule: NewTodo_cases [of title new_id now]) (auto simp: pg_stored_def)
  moreover have "\<exists>u. uuid_Parse E new_id = Some u"
    using assms(4) calculation by (auto simp: pg_storable_def)
  ultimately show ?thesis
    using pg.create_then_get [OF assms] by fastforce
qed

lemma NewTodo_milk: "NewTodo ''7'' '' buy milk '' 5250
   = Inr \<lparr>ID = ''7'', Title = ''buy milk'', Status = StatusOpen, CreatedAt = 5250, CompletedAt = None\<rparr>"
  by code_simp

theorem pg_create_then_get_witness:
  "\<exists>db' db'' t u. Service_Create (pg_repo decimal_env) ''7'' 5250 '' buy milk '' \<lparr>table_todos = [], faults = []\<rparr> = (Inr t, db')
     \<and> Service_Get (pg_repo decimal_env) ''7'' db' = (Inr u, db'') \<and> CreatedAt t = 5250 \<and> CreatedAt u = 5000"
proof -
  have inv: "pg_inv decimal_env \<lparr>table_todos = [], faults = []\<rparr>" "pg_healthy \<lparr>table_todos = [], faults = []\<rparr>"
    using env_ok_decimal by (simp_all add: pg_inv_def pg_healthy_def)
  have "uuid_Parse decimal_env ''7'' = Some 7" by (simp add: decimal_env_def Let_def digits_of.simps)
  then have "pg_storable decimal_env \<lparr>ID = ''7'', Title = ''buy milk'', Status = StatusOpen, CreatedAt = 5250, CompletedAt = None\<rparr>"
    by (simp add: pg_storable_def Valid_def) (simp add: decimal_env_def)
  from pg_create_then_get [OF inv NewTodo_milk this] show ?thesis
    by (auto simp: decimal_env_def)
qed

text \<open>
  C17. Completing through the service on the PostgreSQL store: the stored todo becomes completed, and
  a second \<open>Complete\<close>, whenever it comes, returns the todo with the original completion time (at the
  resolution of the database) and leaves the store unchanged.
\<close>

theorem pg_complete_idempotent:
  assumes "pg_inv E db" and "pg_healthy db" and "uuid_Parse E x = Some u" and "pg_contents E db u = Some t"
  shows "\<exists>db1 db2. Service_Complete (pg_repo E) now x db = (Inr (Complete t now), db1)
     \<and> Service_Complete (pg_repo E) later x db1 = (Inr (pg_stored E (Complete t now)), db2)
     \<and> pg_contents E db1 u = Some (pg_stored E (Complete t now)) \<and> pg_contents E db2 = pg_contents E db1"
  using pg.complete_healthy [OF assms, of now] pg.complete_twice [OF assms, of now later] by fastforce

theorem pg_complete_idempotent_witness:
  "\<exists>db1 db2 t. Service_Complete (pg_repo decimal_env) 9000 ''7'' decimal_db = (Inr t, db1)
     \<and> Service_Complete (pg_repo decimal_env) 99000 ''7'' db1 = (Inr t, db2) \<and> CompletedAt t = Some 9000"
proof -
  have "uuid_Parse decimal_env ''7'' = Some 7" by (simp add: decimal_env_def Let_def digits_of.simps)
  moreover have "pg_contents decimal_env decimal_db 7 = Some \<lparr>ID = ''7'', Title = ''b'', Status = StatusOpen,
      CreatedAt = 2000, CompletedAt = None\<rparr>"
    by (simp add: pg_contents_def decimal_db_def to_todo_def go_defs) (simp add: decimal_env_def digits_of.simps)
  ultimately show ?thesis
    using pg_complete_idempotent [OF pg_inv_decimal pg_healthy_decimal, of "''7''" 7 _ 9000 99000]
    by (fastforce simp: Complete_def pg_stored_def decimal_env_def Let_def digits_of.simps)
qed

text \<open>
  C11. Under every interleaving of concurrent requests at the granularity of repository calls, with
  fresh ids and any backend failures, stored todos only evolve: none disappears, none changes its
  title or creation time, and a completed todo is never reopened; the store stays well-formed.
\<close>

theorem pg_interleavings_never_reopen:
  assumes "svc_reach (pg_repo E) (\<lambda>i s. Option.bind (uuid_Parse E i) (pg_contents E s) = None) S S'"
    and "pg_inv E (svc_store S)" and "all_wf (pg_contents E (svc_store S))" and "in_flight S = []"
    and "pg_contents E (svc_store S) u = Some t"
  shows "\<exists>t'. pg_contents E (svc_store S') u = Some t' \<and> Title t' = Title t \<and> CreatedAt t' = CreatedAt t
     \<and> todo_wf t' \<and> (Status t = StatusCompleted \<longrightarrow> Status t' = StatusCompleted)"
proof -
  have "svc_inv (pg_inv E) (pg_contents E) (uuid_Parse E) S"
    using assms(2-4) by (simp add: svc_inv_def)
  from pg.svc_reach_inv [OF assms(1) this] assms(5) show ?thesis
    by (fastforce simp: svc_inv_def store_evolves_def evolves_def all_wf_def ran_def)
qed

lemma all_wf_decimal: "all_wf (pg_contents decimal_env decimal_db)"
proof -
  have "title_ok ''a''" "title_ok ''b''" "title_ok ''c''" by code_simp+
  then show ?thesis
    by (auto simp: all_wf_def ran_def pg_contents_def decimal_db_def to_todo_def todo_wf_def go_defs split: if_splits)
qed

theorem pg_interleavings_never_reopen_witness:
  "\<exists>S'. svc_reach (pg_repo decimal_env) (\<lambda>i s. Option.bind (uuid_Parse decimal_env i) (pg_contents decimal_env s) = None)
           \<lparr>svc_store = decimal_db, in_flight = []\<rparr> S'
     \<and> length (in_flight S') = 1
     \<and> (\<exists>t'. pg_contents decimal_env (svc_store S') 9 = Some t' \<and> Status t' = StatusCompleted)"
proof -
  let ?F = "\<lambda>i s. Option.bind (uuid_Parse decimal_env i) (pg_contents decimal_env s) = None"
  let ?S = "\<lparr>svc_store = decimal_db, in_flight = []\<rparr>"
  have u: "uuid_Parse decimal_env ''7'' = Some 7" by (simp add: decimal_env_def Let_def digits_of.simps)
  have "\<exists>t. FindByID (pg_repo decimal_env) ''7'' decimal_db = (Inr t, decimal_db)"
    by (simp add: pg_FindByID_def uuidParse_def u GetTodo_def next_fault_def decimal_db_def fromRow_def Valid_def go_defs)
  then obtain t where "FindByID (pg_repo decimal_env) ''7'' (svc_store ?S) = (Inr t, decimal_db)" by auto
  from svc_reach.reach_step [OF svc_reach.reach_refl svc_step.step_complete_read [OF this, of ?F 9000]]
  have reach: "svc_reach (pg_repo decimal_env) ?F ?S \<lparr>svc_store = decimal_db, in_flight = [Complete t 9000]\<rparr>" by simp
  have "pg_contents decimal_env (svc_store ?S) 9 = Some \<lparr>ID = ''9'', Title = ''c'', Status = StatusCompleted,
      CreatedAt = 1000, CompletedAt = Some 3000\<rparr>"
    by (simp add: pg_contents_def decimal_db_def to_todo_def go_defs) (simp add: decimal_env_def digits_of.simps)
  from pg_interleavings_never_reopen [OF reach _ _ _ this] all_wf_decimal reach show ?thesis by fastforce
qed

definition race_start :: "mem_store svc_state" where
  "race_start = \<lparr>svc_store = [(''7'', \<lparr>ID = ''7'', Title = ''b'', Status = StatusOpen, CreatedAt = 1, CompletedAt = None\<rparr>)],
                 in_flight = []\<rparr>"


end
