(* ===== verification/TodoAgreement.thy ===== *)
theory TodoAgreement
  imports TodoService
begin

text \<open>
  The two adapters of the port agree: the in-memory repository the functional tests run on
  (\<open>internal/todo/todotest\<close>) is a faithful double of the PostgreSQL adapter (\<open>internal/todo/postgres\<close>).
  The service answers the same requests alike on both, as long as the database does not fail and the
  requests stay within what both can hold: ids in canonical form, instants at the resolution of the
  database, text without the bytes PostgreSQL refuses.
\<close>

section \<open>Requests and their answers\<close>

datatype svc_reply = TodoReply "todo result" | PageReply "page_result result"

fun svc_answer :: "'s repository \<Rightarrow> svc_call \<Rightarrow> 's \<Rightarrow> svc_reply \<times> 's" where
  "svc_answer R (CallCreate new_id now title) s = apfst TodoReply (Service_Create R new_id now title s)"
| "svc_answer R (CallGet i) s = apfst TodoReply (Service_Get R i s)"
| "svc_answer R (CallList q) s = apfst PageReply (Service_List R q s)"
| "svc_answer R (CallComplete now i) s = apfst TodoReply (Service_Complete R now i s)"

fun svc_answers :: "'s repository \<Rightarrow> svc_call list \<Rightarrow> 's \<Rightarrow> svc_reply list" where
  "svc_answers R [] s = []"
| "svc_answers R (c # cs) s = (case svc_answer R c s of (r, s') \<Rightarrow> r # svc_answers R cs s')"

text \<open>Two errors are alike for the layers above when they wrap the same sentinels of the domain.\<close>

definition same_error :: "go_error \<Rightarrow> go_error \<Rightarrow> bool" where
  "same_error e e' \<longleftrightarrow> list_all (\<lambda>x. errors_Is e x = errors_Is e' x) [ErrNotFound, ErrInvalidTitle, ErrInvalidCursor]"

fun same_result :: "'a result \<Rightarrow> 'a result \<Rightarrow> bool" where
  "same_result (Inr x) (Inr y) = (x = y)"
| "same_result (Inl e) (Inl e') = same_error e e'"
| "same_result _ _ = False"

fun same_reply :: "svc_reply \<Rightarrow> svc_reply \<Rightarrow> bool" where
  "same_reply (TodoReply r) (TodoReply r') = same_result r r'"
| "same_reply (PageReply r) (PageReply r') = same_result r r'"
| "same_reply _ _ = False"

definition canonical :: "pg_env \<Rightarrow> string \<Rightarrow> bool" where
  "canonical E x = (case uuid_Parse E x of None \<Rightarrow> False | Some u \<Rightarrow> uuid_String E u = x)"

definition exact :: "pg_env \<Rightarrow> time \<Rightarrow> bool" where
  "exact E t \<longleftrightarrow> timestamptz E t = t"

fun admissible :: "pg_env \<Rightarrow> svc_call \<Rightarrow> bool" where
  "admissible E (CallCreate new_id now title) = (canonical E new_id \<and> exact E now \<and> text_ok E (TrimSpace title))"
| "admissible E (CallGet i) = (canonical E i \<or> uuid_Parse E i = None)"
| "admissible E (CallList q) = (case After q of None \<Rightarrow> True | Some c \<Rightarrow> canonical E (cur_ID c) \<and> exact E (cur_CreatedAt c))"
| "admissible E (CallComplete now i) = (exact E now \<and> (canonical E i \<or> uuid_Parse E i = None))"

text \<open>
  PostgreSQL compares UUIDs by their bytes and the in-memory store by their text; the canonical text
  is fixed-width lower-case hexadecimal, which has the same order.
\<close>

definition uuid_order_ok :: "pg_env \<Rightarrow> bool" where
  "uuid_order_ok E \<longleftrightarrow> (\<forall>u v. u < v \<longleftrightarrow> uuid_String E u < uuid_String E v)"

section \<open>The simulation\<close>

definition exact_todo :: "pg_env \<Rightarrow> todo \<Rightarrow> bool" where
  "exact_todo E t \<longleftrightarrow> canonical E (ID t) \<and> exact E (CreatedAt t) \<and> map_option (timestamptz E) (CompletedAt t) = CompletedAt t
     \<and> text_ok E (Title t) \<and> Valid (Status t)"

definition agree :: "pg_env \<Rightarrow> mem_store \<Rightarrow> pg_db \<Rightarrow> bool" where
  "agree E m db \<longleftrightarrow> mem_inv m \<and> pg_inv E db \<and> pg_healthy db
     \<and> (\<forall>x. map_of m x = (if canonical E x then Option.bind (uuid_Parse E x) (pg_contents E db) else None))
     \<and> (\<forall>t \<in> ran (map_of m). exact_todo E t)"

lemma canonical_String: "env_ok E \<Longrightarrow> canonical E (uuid_String E u)"
  by (simp add: canonical_def env_ok_def)

lemma canonicalE: "canonical E x \<Longrightarrow> (\<And>u. uuid_Parse E x = Some u \<Longrightarrow> x = uuid_String E u \<Longrightarrow> P) \<Longrightarrow> P"
  by (auto simp: canonical_def split: option.splits)

lemma agree_lookup:
  assumes "agree E m db" and "canonical E x \<or> uuid_Parse E x = None"
  shows "map_of m x = Option.bind (uuid_Parse E x) (pg_contents E db)"
  using assms by (auto simp: agree_def)

lemma agree_exact: "agree E m db \<Longrightarrow> map_of m x = Some t \<Longrightarrow> exact_todo E t \<and> ID t = x"
  unfolding agree_def by (blast intro: ranI mem_contents_ID)

lemma agree_stores: "agree E m db \<Longrightarrow> mem_inv m \<and> pg_inv E db \<and> pg_healthy db"
  by (simp add: agree_def)

lemma pg_contents_ID: "pg_contents E db u = Some t \<Longrightarrow> pg_inv E db \<Longrightarrow> ID t = uuid_String E u"
  by (auto simp: pg_contents_def to_todo_def dest: pg_row)

lemma agree_ran:
  assumes "agree E m db"
  shows "ran (map_of m) = ran (pg_contents E db)"
proof -
  from assms have env: "env_ok E" and inv: "pg_inv E db" by (auto simp: agree_def pg_inv_def)
  have eq: "map_of m x = (if canonical E x then Option.bind (uuid_Parse E x) (pg_contents E db) else None)" for x
    using assms by (simp add: agree_def)
  have "map_of m (uuid_String E u) = pg_contents E db u" for u
    using env canonical_String [OF env, of u] by (simp add: eq env_ok_def)
  moreover have "\<exists>u. pg_contents E db u = Some t" if "map_of m x = Some t" for x t
    using that unfolding eq by (auto split: if_splits simp: bind_eq_Some_conv)
  ultimately show ?thesis unfolding ran_def by (intro equalityI subsetI CollectI; elim CollectE exE) metis+
qed

lemma strictly_sorted_unique:
  assumes "strictly_sorted key xs" and "strictly_sorted key ys" and "set xs = set ys"
  shows "xs = ys"
proof -
  have "sorted_wrt (<) (map key xs)" "sorted_wrt (<) (map key ys)" using assms(1,2) by (simp_all add: sorted_wrt_map)
  then have "map key xs = map key ys" using assms(3) by (intro strict_sorted_equal) simp_all
  moreover have "inj_on key (set xs)"
    using assms(1) by (induction xs) (fastforce simp: inj_on_def)+
  ultimately show ?thesis using assms(3) by (auto intro: map_inj_on)
qed

lemma rank_canonical:
  assumes "uuid_order_ok E" and "canonical E (ID a)" and "canonical E (ID b)"
  shows "rank (uuid_Parse E) a < rank (uuid_Parse E) b \<longleftrightarrow> mem_rank a < mem_rank b"
  using assms by (auto simp: rank_def less_prod_def uuid_order_ok_def elim!: canonicalE)

lemma agree_listing:
  assumes "agree E m db" and "uuid_order_ok E"
  shows "pg_listing E db = mem_listing m"
proof -
  from assms(1) have inv: "mem_inv m" "pg_inv E db" "\<forall>t \<in> ran (map_of m). canonical E (ID t)"
    by (auto simp: agree_def exact_todo_def)
  have set: "set (pg_listing E db) = set (mem_listing m)"
    using pg.set_listing [OF inv(2)] mem.set_listing [OF inv(1)] agree_ran [OF assms(1)] by simp
  have "strictly_sorted mem_rank (pg_listing E db)"
    by (rule sorted_wrt_mono_rel [OF _ pg_listing_sorted [OF inv(2)]])
       (use inv rank_canonical [OF assms(2)] pg.set_listing [OF inv(2)] agree_ran [OF assms(1)] in auto)
  from strictly_sorted_unique [OF this mem_listing_sorted [OF inv(1)] set] show ?thesis .
qed

lemma list_spec_canonical:
  assumes "uuid_order_ok E" and "\<forall>t \<in> set xs. canonical E (ID t)"
    and "case After q of None \<Rightarrow> True | Some c \<Rightarrow> canonical E (cur_ID c) \<and> exact E (cur_CreatedAt c)"
  shows "list_spec (uuid_Parse E) (timestamptz E) q xs = list_spec Some (\<lambda>x. x) q xs"
proof -
  have "window (rank (uuid_Parse E)) (map_option (cursor_rank (uuid_Parse E) (timestamptz E)) (After q)) xs
      = window mem_rank (map_option (cursor_rank Some (\<lambda>x. x)) (After q)) xs"
  proof (cases "After q")
    case (Some c)
    let ?t = "undefined\<lparr>ID := cur_ID c, CreatedAt := cur_CreatedAt c\<rparr> :: todo"
    have k: "cursor_rank (uuid_Parse E) (timestamptz E) c = rank (uuid_Parse E) ?t" "cursor_rank Some (\<lambda>x. x) c = mem_rank ?t"
      using assms(3) Some by (simp_all add: cursor_rank_def rank_def exact_def)
    have "canonical E (ID ?t)" using assms(3) Some by simp
    then show ?thesis using assms(2) rank_canonical [OF assms(1)] unfolding Some window_def
      by (auto simp: k intro!: filter_cong)
  qed (simp add: window_def)
  then show ?thesis by (simp add: list_spec_def keyset_page_def Let_def)
qed

section \<open>Each request\<close>

lemma same_error_wrap [simp]: "same_error (Errorf f a e) (Errorf f' a' e') = same_error e e'"
  by (simp add: same_error_def)

lemma same_error_refl [simp]: "same_error e e"
  by (simp add: same_error_def)

text \<open>Reading: the same todo, or not found on both sides.\<close>

lemma agree_Find:
  assumes "agree E m db" and "canonical E x \<or> uuid_Parse E x = None" and "pg_FindByID E x db = (r, db')"
  shows "agree E m db' \<and> mem_FindByID x m = (r, m) \<and> (case r of Inr t \<Rightarrow> exact_todo E t \<and> ID t = x | Inl e \<Rightarrow> True)"
proof -
  from assms(1) have inv: "pg_inv E db" "pg_healthy db" "mem_inv m" by (auto simp: agree_def)
  note look = agree_lookup [OF assms(1,2)]
  have fr: "pg_inv E db'" "pg_contents E db' = pg_contents E db" "pg_healthy db'"
    using pg.Find_frame [OF inv(1)] pg.Find_healthy [OF inv(1,2)] assms(3) by auto
  have r: "case r of Inr t \<Rightarrow> map_of m x = Some t | Inl e \<Rightarrow> e = ErrNotFound \<and> map_of m x = None"
    using pg.Find_ok [OF inv(1)] pg.Find_err [OF inv(1)] pg.Find_healthy [OF inv(1,2)] assms(3) look
    by (cases r) (fastforce simp: look)+
  moreover have "agree E m db'" using assms(1) fr by (simp add: agree_def)
  moreover note agree_exact [OF assms(1), of x]
  ultimately show ?thesis by (auto simp: mem_FindByID_def split: sum.splits)
qed

text \<open>Writing what both stores can hold.\<close>

lemma agree_Save:
  assumes "agree E m db" and "exact_todo E t" and "pg_Save E t db = (er, db')"
  shows "er = None \<and> agree E (aput (ID t) t m) db'"
proof -
  from assms(1) have inv: "pg_inv E db" "pg_healthy db" "mem_inv m" "env_ok E" by (auto simp: agree_def pg_inv_def)
  from assms(2) obtain u where u: "uuid_Parse E (ID t) = Some u" "ID t = uuid_String E u"
    by (auto simp: exact_todo_def elim!: canonicalE)
  have st: "pg_storable E t" "pg_stored E t = t"
    using assms(2) u by (auto simp: exact_todo_def exact_def pg_storable_def pg_stored_def)
  from pg.Save_healthy [OF inv(1,2) st(1)] assms(3) have ok: "er = None" "pg_healthy db'" by auto
  have S: "Save (pg_repo E) t db = (None, db')" using assms(3) ok by simp
  have db': "pg_inv E db'" "pg_contents E db' = (pg_contents E db)(u \<mapsto> t)"
    using pg.Save_ok [OF inv(1) S] pg.Save_inv [OF inv(1) S] by (simp_all add: u(1) st(2))
  have keys: "uuid_Parse E x = Some u \<longleftrightarrow> x = ID t" if "canonical E x" for x
    using that u by (metis canonicalE option.inject)
  have "map_of (aput (ID t) t m) x = (if canonical E x then Option.bind (uuid_Parse E x) (pg_contents E db') else None)" for x
  proof (cases "x = ID t")
    case True
    with u db' assms(2) show ?thesis by (simp add: exact_todo_def)
  next
    case False
    moreover have "map_of m x = (if canonical E x then Option.bind (uuid_Parse E x) (pg_contents E db) else None)"
      using assms(1) by (simp add: agree_def)
    ultimately show ?thesis using keys [of x] unfolding db'(2) by (cases "uuid_Parse E x") auto
  qed
  moreover have "ran (map_of (aput (ID t) t m)) \<subseteq> insert t (ran (map_of m))" by (auto simp: ran_def split: if_splits)
  then have "\<forall>x \<in> ran (map_of (aput (ID t) t m)). exact_todo E x" using assms(1,2) unfolding agree_def by blast
  ultimately show ?thesis using ok db' mem_inv_aput [OF inv(3)] unfolding agree_def by simp
qed

lemma agree_List:
  assumes "agree E m db" and "uuid_order_ok E" and "admissible E (CallList q)" and "Service_List (pg_repo E) q db = (r, db')"
  shows "agree E m db' \<and> Service_List mem_repo q m = (r, m)"
proof -
  let ?q = "q\<lparr>Limit := clampLimit (Limit q)\<rparr>"
  from assms(1) have inv: "pg_inv E db" "pg_healthy db" "mem_inv m" by (auto simp: agree_def)
  note clamp = clampLimit_range [of "Limit q"]
  obtain l db1 where L: "pg_List E ?q db = (l, db1)" by fastforce
  have fr: "pg_inv E db1" "pg_contents E db1 = pg_contents E db" "pg_healthy db1" "\<And>e. l = Inl e \<Longrightarrow> \<not> backend_failure e"
    using pg.List_frame [OF inv(1), of ?q l db1] pg.List_healthy [OF inv(1,2), of ?q l db1] L clamp by auto
  have "\<exists>p. l = Inr p"
    using pg.List_err [OF inv(1), of ?q _ db1] fr(4) L clamp assms(3) by (cases l) (auto simp: canonical_def split: option.splits)
  then obtain p where l: "l = Inr p" by blast
  have "\<forall>t \<in> set (mem_listing m). canonical E (ID t)"
    using assms(1) mem.set_listing [OF inv(3)] by (auto simp: agree_def exact_todo_def)
  from list_spec_canonical [OF assms(2) this, of ?q] assms(3)
  have "p = list_spec Some (\<lambda>x. x) ?q (mem_listing m)"
    using pg.List_ok [OF inv(1), of ?q p db1] L l clamp agree_listing [OF assms(1,2)] by simp
  then have M: "mem_List ?q m = (Inr p, m)" using mem_List_refines [OF inv(3), of ?q] clamp by simp
  have "agree E m db1" using assms(1) fr by (simp add: agree_def)
  with M assms(4) L l show ?thesis by (auto simp: Service_List_def mem_repo_def)
qed

lemma NewTodo_exact:
  assumes "NewTodo i title now = Inr t" and "canonical E i" and "exact E now" and "text_ok E (TrimSpace title)"
  shows "exact_todo E t"
  using assms by (auto simp: NewTodo_def exact_todo_def Valid_def Let_def split: if_splits)

lemma Complete_exact: "exact_todo E t \<Longrightarrow> exact E now \<Longrightarrow> exact_todo E (Complete t now)"
  by (auto simp: exact_todo_def Complete_def Valid_def exact_def)

lemma agree_answer:
  assumes "agree E m db" and "uuid_order_ok E" and "admissible E c"
  shows "\<exists>r r' m' db'. svc_answer mem_repo c m = (r, m') \<and> svc_answer (pg_repo E) c db = (r', db')
    \<and> same_reply r r' \<and> agree E m' db'"
proof (cases c)
  case (CallCreate i now title)
  show ?thesis
  proof (cases "NewTodo i title now")
    case (Inr t)
    obtain er db' where S: "pg_Save E t db = (er, db')" by fastforce
    from NewTodo_exact [OF Inr] assms(3) CallCreate have "exact_todo E t" by simp
    from agree_Save [OF assms(1) this S] CallCreate Inr S show ?thesis
      by (simp add: Service_Create_def mem_repo_def mem_Save_def)
  qed (use CallCreate assms(1) in \<open>simp add: Service_Create_def\<close>)
next
  case (CallGet i)
  obtain r db' where F: "pg_FindByID E i db = (r, db')" by fastforce
  from agree_Find [OF assms(1) _ F] assms(3) CallGet F show ?thesis
    by (cases r) (simp_all add: Service_Get_def mem_repo_def)
next
  case (CallList q)
  obtain r db' where L: "Service_List (pg_repo E) q db = (r, db')" by fastforce
  from agree_List [OF assms(1,2) _ L] assms(3) CallList L show ?thesis by (cases r) simp_all
next
  case (CallComplete now i)
  obtain r db1 where F: "pg_FindByID E i db = (r, db1)" by fastforce
  note find = agree_Find [OF assms(1) _ F]
  show ?thesis
  proof (cases r)
    case (Inl e)
    with find assms(3) CallComplete F show ?thesis by (simp add: Service_Complete_def mem_repo_def)
  next
    case (Inr t)
    obtain er db' where S: "pg_Save E (Complete t now) db1 = (er, db')" by fastforce
    from find assms(3) CallComplete Inr have a: "agree E m db1" "exact_todo E (Complete t now)" "mem_FindByID i m = (Inr t, m)"
      using Complete_exact by auto
    from agree_Save [OF a(1,2) S] a(3) CallComplete Inr F S show ?thesis
      by (simp add: Service_Complete_def mem_repo_def mem_Save_def Let_def)
  qed
qed

section \<open>A concrete environment\<close>

text \<open>Ids as 128 binary digits, whose order is that of the numbers.\<close>

fun bits_of :: "nat \<Rightarrow> nat \<Rightarrow> string" where
  "bits_of 0 m = []"
| "bits_of (Suc n) m = (if 2 ^ n \<le> m then CHR ''1'' # bits_of n (m - 2 ^ n) else CHR ''0'' # bits_of n m)"

fun bits_val :: "string \<Rightarrow> nat" where
  "bits_val [] = 0"
| "bits_val (c # cs) = (if c = CHR ''1'' then 2 ^ length cs else 0) + bits_val cs"

lemma length_bits_of [simp]: "length (bits_of n m) = n"
  by (induction n m rule: bits_of.induct) auto

lemma bits_val_bits_of: "m < 2 ^ n \<Longrightarrow> bits_val (bits_of n m) = m"
  by (induction n m rule: bits_of.induct) auto

lemma bits_of_less: "m < 2 ^ n \<Longrightarrow> k < 2 ^ n \<Longrightarrow> bits_of n m < bits_of n k \<longleftrightarrow> m < k"
proof (induction n arbitrary: m k)
  case (Suc n)
  then show ?case by (cases "2 ^ n \<le> m"; cases "2 ^ n \<le> k") (simp_all add: less_diff_conv2)
qed simp

definition binary_env :: pg_env where
  "binary_env = \<lparr>
     uuid_Parse = (\<lambda>s. let n = bits_val s in if s = bits_of 128 n \<and> n < 2 ^ 128 then Some (of_nat n) else None),
     uuid_String = (\<lambda>u. bits_of 128 (unat u)),
     timestamptz = (\<lambda>t. (t div 1000) * 1000),
     text_ok = (\<lambda>s. CHR 0x00 \<notin> set s)\<rparr>"

lemma uuid_bits:
  fixes u v :: uuid
  shows "unat u < 340282366920938463463374607431768211456" and "bits_val (bits_of 128 (unat u)) = unat u"
    and "bits_of 128 (unat u) < bits_of 128 (unat v) \<longleftrightarrow> unat u < unat v"
proof -
  have less: "unat w < 2 ^ 128" for w :: uuid using unsigned_less [of w, where ?'a = nat] by simp
  from less [of u] show "unat u < 340282366920938463463374607431768211456" by simp
  show "bits_val (bits_of 128 (unat u)) = unat u" by (rule bits_val_bits_of [OF less])
  show "bits_of 128 (unat u) < bits_of 128 (unat v) \<longleftrightarrow> unat u < unat v" by (rule bits_of_less [OF less less])
qed

lemma binary_env_ok: "env_ok binary_env" "uuid_order_ok binary_env"
  by (simp_all add: env_ok_def uuid_order_ok_def binary_env_def Let_def uuid_bits word_less_nat_alt del: bits_of.simps)

lemma agree_empty: "env_ok E \<Longrightarrow> agree E NewRepository \<lparr>table_todos = [], faults = []\<rparr>"
  by (simp add: agree_def NewRepository_def mem_inv_def pg_inv_def pg_healthy_def pg_contents_def bind_eq_None_conv split: option.split)
     (auto simp: canonical_def pg_contents_def split: option.splits)

lemma binary_Parse_short: "length x \<noteq> 128 \<Longrightarrow> uuid_Parse binary_env x = None"
  by (auto simp: binary_env_def Let_def simp del: bits_of.simps) (metis length_bits_of)

lemma binary_exact: "exact binary_env t \<longleftrightarrow> t div 1000 * 1000 = t"
  by (simp add: exact_def binary_env_def)

section \<open>Properties\<close>

text \<open>
  C5. The in-memory repository stands in for PostgreSQL: from agreeing stores, for instance empty
  ones, the service answers every sequence of admissible requests alike on both adapters, page
  boundaries and cursors included, as long as the database does not fail: the same todos and pages,
  and errors that wrap the same domain sentinels.
\<close>

theorem adapters_agree:
  assumes "agree E m db" and "uuid_order_ok E" and "list_all (admissible E) calls"
  shows "list_all2 same_reply (svc_answers mem_repo calls m) (svc_answers (pg_repo E) calls db)"
  using assms(1,3)
proof (induction calls arbitrary: m db)
  case (Cons c calls)
  from agree_answer [OF Cons.prems(1) assms(2), of c] Cons show ?case by auto
qed simp

theorem adapters_agree_witness:
  "list_all2 same_reply
     (svc_answers mem_repo [CallCreate (uuid_String binary_env 5) 2000 ''milk'', CallComplete 3000 (uuid_String binary_env 5), CallGet ''x'',
        CallList \<lparr>Limit = 0, After = None\<rparr>] NewRepository)
     (svc_answers (pg_repo binary_env) [CallCreate (uuid_String binary_env 5) 2000 ''milk'', CallComplete 3000 (uuid_String binary_env 5), CallGet ''x'',
        CallList \<lparr>Limit = 0, After = None\<rparr>] \<lparr>table_todos = [], faults = []\<rparr>)"
proof (rule adapters_agree [OF agree_empty [OF binary_env_ok(1)] binary_env_ok(2)])
  have "CHR 0x00 \<notin> set (TrimSpace ''milk'')" by code_simp
  then have "text_ok binary_env (TrimSpace ''milk'')" by (simp add: binary_env_def)
  with canonical_String [OF binary_env_ok(1), of 5] show "list_all (admissible binary_env) [CallCreate (uuid_String binary_env 5) 2000 ''milk'',
      CallComplete 3000 (uuid_String binary_env 5), CallGet ''x'', CallList \<lparr>Limit = 0, After = None\<rparr>]"
    by (simp add: binary_exact binary_Parse_short)
qed

end
