(* ===== verification/GoJson.thy ===== *)
theory GoJson
  imports GoStrings
begin

text \<open>
  Strings as \<open>encoding/json\<close> writes them, for the pagination tokens and the documents of the
  infrastructure endpoints and the router's error replies.
\<close>

text \<open>
  \<open>encoding/json\<close>'s string encoder: quotes, backslashes, control characters and the HTML-sensitive
  characters are escaped, ill-formed UTF-8 becomes \<open>\ufffd\<close>, and U+2028 and U+2029 are escaped.
\<close>

definition json_u :: "nat \<Rightarrow> string" where
  "json_u n = CHR 0x5C # ''u00'' @ [(if n div 16 = 0 then CHR ''0'' else if n div 16 = 1 then CHR ''1''
       else if n div 16 = 2 then CHR ''2'' else CHR ''3''),
     char_of (if n mod 16 < 10 then 48 + n mod 16 else 87 + n mod 16)]"

definition json_escape :: "char \<Rightarrow> string" where
  "json_escape c =
     (if c = CHR 0x22 \<or> c = CHR 0x5C then [CHR 0x5C, c]
      else if c = CHR 0x08 then CHR 0x5C # ''b''
      else if c = CHR 0x0C then CHR 0x5C # ''f''
      else if c = CHR 0x0A then CHR 0x5C # ''n''
      else if c = CHR 0x0D then CHR 0x5C # ''r''
      else if c = CHR 0x09 then CHR 0x5C # ''t''
      else if byte c < 32 \<or> c = CHR ''<'' \<or> c = CHR ''>'' \<or> c = CHR ''&'' then json_u (byte c)
      else [c])"

function json_body :: "string \<Rightarrow> string" where
  "json_body s =
     (case s of
        [] \<Rightarrow> []
      | c # cs \<Rightarrow>
          (if byte c < 128 then json_escape c @ json_body cs
           else if rune_width s = 1 then CHR 0x5C # ''ufffd'' @ json_body cs
           else (if take 3 s = [CHR 0xE2, CHR 0x80, CHR 0xA8] then CHR 0x5C # ''u2028''
                 else if take 3 s = [CHR 0xE2, CHR 0x80, CHR 0xA9] then CHR 0x5C # ''u2029''
                 else take (rune_width s) s) @ json_body (drop (rune_width s) s)))"
  by pat_completeness auto
termination
proof (relation "measure length")
  fix s :: string and c cs
  assume "s = c # cs"
  then show "(drop (rune_width s) s, s) \<in> measure length" using rune_width_bounds [of s] by auto
qed auto

declare json_body.simps [simp del]

definition json_string :: "string \<Rightarrow> string" where
  "json_string s = CHR 0x22 # json_body s @ [CHR 0x22]"

text \<open>A character that stands for itself inside a JSON string, encoded and decoded.\<close>

definition json_plain :: "char \<Rightarrow> bool" where
  "json_plain c \<longleftrightarrow> 32 \<le> byte c \<and> byte c < 127 \<and> c \<notin> {CHR 0x22, CHR 0x5C, CHR ''<'', CHR ''>'', CHR ''&''}"

lemma json_plain_escape:
  assumes "json_plain c"
  shows "json_escape c = [c]"
proof -
  have ge: "32 \<le> byte c" using assms by (simp add: json_plain_def)
  have "c \<noteq> d" if "byte d < 32" for d using ge that by (metis leD)
  from this [of "CHR 0x08"] this [of "CHR 0x0C"] this [of "CHR 0x0A"] this [of "CHR 0x0D"] this [of "CHR 0x09"]
  have "c \<noteq> CHR 0x08" "c \<noteq> CHR 0x0C" "c \<noteq> CHR 0x0A" "c \<noteq> CHR 0x0D" "c \<noteq> CHR 0x09" by simp_all
  moreover have "\<not> byte c < 32" "c \<notin> {CHR 0x22, CHR 0x5C, CHR ''<'', CHR ''>'', CHR ''&''}"
    using assms by (simp_all add: json_plain_def)
  ultimately show ?thesis unfolding json_escape_def by (simp only: insert_iff empty_iff if_False simp_thms) simp
qed

lemma json_body_plain: "list_all json_plain s \<Longrightarrow> json_body s = s"
proof (induction s)
  case Nil
  then show ?case by (simp add: json_body.simps)
next
  case (Cons c s)
  then have "json_plain c" by simp
  then have "byte c < 128" "json_escape c = [c]" by (simp_all add: json_plain_escape) (simp add: json_plain_def)
  moreover have "json_body s = s" using Cons by simp
  ultimately show ?case by (subst json_body.simps) simp
qed

end
