(* ===== verification/GoLog.thy ===== *)
theory GoLog
  imports Prelude
begin

text \<open>
  \<open>log/slog\<close> as the program uses it: a logger has a handler with a minimum level, or discards
  everything, and may be a child logger that carries the request id (\<open>With\<close>).
\<close>

definition LevelDebug :: int where [go_defs]: "LevelDebug = - 4"
definition LevelInfo :: int where [go_defs]: "LevelInfo = 0"
definition LevelWarn :: int where [go_defs]: "LevelWarn = 4"
definition LevelError :: int where [go_defs]: "LevelError = 8"

datatype log_format = JSONHandler | TextHandler | DiscardHandler

record logger =
  lg_format :: log_format
  lg_level :: int
  lg_scope :: "string option"

definition discard_logger :: logger where
  "discard_logger = \<lparr>lg_format = DiscardHandler, lg_level = 0, lg_scope = None\<rparr>"

definition With_request_id :: "string \<Rightarrow> logger \<Rightarrow> logger" where
  "With_request_id request_id lg = lg\<lparr>lg_scope := Some request_id\<rparr>"

text \<open>A record is written when the handler is enabled at its level.\<close>

definition logs_at :: "logger \<Rightarrow> int \<Rightarrow> bool" where
  "logs_at lg level \<longleftrightarrow> lg_format lg \<noteq> DiscardHandler \<and> lg_level lg \<le> level"

lemma With_request_id_simps [simp]:
  "logs_at (With_request_id i lg) level = logs_at lg level" "lg_scope (With_request_id i lg) = Some i"
  by (simp_all add: With_request_id_def logs_at_def)

lemma logs_at_error: "logs_at lg LevelInfo \<Longrightarrow> logs_at lg LevelError"
  by (simp add: logs_at_def go_defs)

end
