(* ===== verification/AuthzCore.thy ===== *)
theory AuthzCore
  imports GoStrings GoLog
begin

text \<open>
  The vocabulary of \<open>internal/authz\<close>: Cedar entities as data, the caller identity of
  \<open>principal.go\<close>, the route declarations of \<open>declare.go\<close> and the base principal resolver of
  \<open>principal_resolver.go\<close>.  The Cedar value types are those of \<open>cedar-go/types\<close> the program uses; a
  Cedar record is an association list with distinct keys.
\<close>

section \<open>Entities\<close>

record entity_uid =
  uid_Type :: string
  uid_ID :: string

datatype cedar_value =
    VString string
  | VDatetime time
  | VSet "cedar_value list"
  | VEntity entity_uid
  | VOther string

type_synonym cedar_record = "(string \<times> cedar_value) list"

record entity =
  ent_UID :: entity_uid
  ent_Parents :: "entity_uid list"
  ent_Attributes :: cedar_record

definition NewEntityUID :: "string \<Rightarrow> string \<Rightarrow> entity_uid" where
  [go_defs]: "NewEntityUID t i = \<lparr>uid_Type = t, uid_ID = i\<rparr>"

definition zero_uid :: entity_uid where
  [go_defs]: "zero_uid = \<lparr>uid_Type = [], uid_ID = []\<rparr>"

definition zero_entity :: entity where
  [go_defs]: "zero_entity = \<lparr>ent_UID = zero_uid, ent_Parents = [], ent_Attributes = []\<rparr>"

section \<open>Log attributes\<close>

text \<open>
  The value of a panic, and the values a log attribute can have.  An entity uid is logged by its
  \<open>String\<close> method and the reasons of a decision by the ids of the policies that determined it; both are
  rendered by Cedar, so they are kept as values.  A \<open>log_sink\<close> is a logger as its user sees it: what
  writing a line does to the world.
\<close>

datatype panic_value = PanicError go_error | PanicValue string

datatype log_value =
    LString string
  | LInt int
  | LDuration duration
  | LError go_error
  | LPanic panic_value
  | LUID entity_uid
  | LReasons "string list"

type_synonym 'w log_sink = "int \<Rightarrow> string \<Rightarrow> (string \<times> log_value) list \<Rightarrow> 'w \<Rightarrow> 'w"

section \<open>Principals\<close>

definition AnonymousType :: string where
  [go_defs]: "AnonymousType = ''Anonymous''"

definition AnonymousID :: string where
  [go_defs]: "AnonymousID = ''anonymous''"

record principal =
  UID :: entity_uid
  Claims :: cedar_record

definition Anonymous :: principal where
  "Anonymous = \<lparr>UID = NewEntityUID AnonymousType AnonymousID, Claims = []\<rparr>"

definition IsAnonymous :: "principal \<Rightarrow> bool" where
  "IsAnonymous p \<longleftrightarrow> uid_Type (UID p) = AnonymousType"

text \<open>
  Values a request context carries: the authenticated principal (\<open>WithPrincipal\<close>), its deadline, the
  client IP and the request id the chi middlewares stored, and the request-scoped logger of
  \<open>internal/logctx\<close>.
\<close>

record request_ctx =
  ctx_principal :: "principal option"
  ctx_deadline :: "time option"
  ctx_clientIP :: string
  ctx_reqID :: string
  ctx_logger :: "logger option"

definition WithPrincipal :: "request_ctx \<Rightarrow> principal \<Rightarrow> request_ctx" where
  "WithPrincipal ctx p = ctx\<lparr>ctx_principal := Some p\<rparr>"

definition PrincipalFrom :: "request_ctx \<Rightarrow> principal option" where
  "PrincipalFrom ctx = ctx_principal ctx"

text \<open>\<open>internal/logctx/logctx.go\<close>.\<close>

definition WithLogger :: "request_ctx \<Rightarrow> logger \<Rightarrow> request_ctx" where
  "WithLogger ctx logger = ctx\<lparr>ctx_logger := Some logger\<rparr>"

definition From :: "request_ctx \<Rightarrow> logger option" where
  "From ctx = ctx_logger ctx"

section \<open>The principal resolver\<close>

definition RoleType :: string where
  [go_defs]: "RoleType = ''Role''"

definition PrincipalType :: string where
  [go_defs]: "PrincipalType = ''User''"

definition RolesClaim :: string where
  [go_defs]: "RolesClaim = ''roles''"

definition reservedTypes :: "string list" where
  "reservedTypes = [PrincipalType, AnonymousType]"

fun role_uids :: "cedar_value list \<Rightarrow> entity_uid list" where
  "role_uids [] = []"
| "role_uids (VString name # vs) = NewEntityUID RoleType name # role_uids vs"
| "role_uids (_ # vs) = role_uids vs"

definition roleParents :: "cedar_record \<Rightarrow> entity_uid list" where
  "roleParents claims =
     (case map_of claims RolesClaim of
        Some (VSet roles) \<Rightarrow> remdups (role_uids roles)
      | _ \<Rightarrow> [])"

definition principal_entity :: "principal \<Rightarrow> entity" where
  "principal_entity p = \<lparr>ent_UID = UID p, ent_Parents = roleParents (Claims p), ent_Attributes = Claims p\<rparr>"

definition principalResolve :: "principal \<Rightarrow> entity_uid \<Rightarrow> entity \<times> bool" where
  "principalResolve p uid = (if uid \<noteq> UID p then (zero_entity, False) else (principal_entity p, True))"

lemma set_role_uids: "set (role_uids vs) = {NewEntityUID RoleType n |n. VString n \<in> set vs}"
  by (induction vs rule: role_uids.induct) auto

section \<open>Declarations\<close>

definition metadataKey :: string where
  [go_defs]: "metadataKey = ''authz''"

definition SecuritySchemeName :: string where
  [go_defs]: "SecuritySchemeName = ''apiKey''"

definition APIKeyHeader :: string where
  [go_defs]: "APIKeyHeader = ''X-API-Key''"

datatype decl_kind = KindRequire | KindPublic

record authz_decl =
  decl_kind :: decl_kind
  decl_action :: entity_uid
  decl_idParam :: string

text \<open>The dynamic values of \<open>Operation.Metadata\<close>: a declaration, or anything else.\<close>

datatype metadata_value = MetaDeclaration authz_decl | MetaOther string

type_synonym metadata = "(string \<times> metadata_value) list"

definition Require :: "entity_uid \<Rightarrow> string list \<Rightarrow> metadata" where
  "Require action idParam =
     (let i = (if length idParam > 0 then idParam ! 0 else [])
      in [(metadataKey, MetaDeclaration \<lparr>decl_kind = KindRequire, decl_action = action, decl_idParam = i\<rparr>)])"

definition Public :: metadata where
  "Public = [(metadataKey, MetaDeclaration \<lparr>decl_kind = KindPublic, decl_action = zero_uid, decl_idParam = []\<rparr>)]"

text \<open>The parts of a Huma operation the program reads or writes; \<open>Metadata\<close> may be a nil map.\<close>

record operation =
  OperationID :: string
  op_Method :: string
  op_Path :: string
  DefaultStatus :: nat
  op_Errors :: "nat list"
  Metadata :: "metadata option"
  Security :: "(string \<times> string list) list list"

definition declarationFrom :: "operation option \<Rightarrow> authz_decl option" where
  "declarationFrom op =
     (case op of
        None \<Rightarrow> None
      | Some oper \<Rightarrow>
          (case Metadata oper of
             None \<Rightarrow> None
           | Some m \<Rightarrow> (case map_of m metadataKey of Some (MetaDeclaration d) \<Rightarrow> Some d | _ \<Rightarrow> None)))"

definition SecurityRequirement :: "(string \<times> string list) list list" where
  "SecurityRequirement = [[(SecuritySchemeName, [])]]"

text \<open>
  \<open>ApplySecurity\<close> visits every operation of every path item; the model is the list of path items,
  each with its eight method slots in the order \<open>pathOperations\<close> collects them.
\<close>

definition pathOperations :: "operation option list \<Rightarrow> operation list" where
  "pathOperations item = List.map_filter (\<lambda>op. op) item"

definition apply_security_op :: "operation \<Rightarrow> operation" where
  "apply_security_op oper =
     (case declarationFrom (Some oper) of
        None \<Rightarrow> oper
      | Some d \<Rightarrow> if decl_kind d \<noteq> KindRequire then oper else oper\<lparr>Security := SecurityRequirement\<rparr>)"

definition ApplySecurity :: "operation option list list \<Rightarrow> operation option list list" where
  "ApplySecurity paths = map (map (map_option apply_security_op)) paths"

record security_scheme =
  scheme_Type :: string
  scheme_In :: string
  scheme_Name :: string

record openapi_doc =
  doc_paths :: "operation option list list"
  doc_schemes :: "(string \<times> security_scheme) list option"

definition RegisterSecurityScheme :: "openapi_doc \<Rightarrow> openapi_doc" where
  "RegisterSecurityScheme doc =
     (let schemes = (case doc_schemes doc of None \<Rightarrow> [] | Some m \<Rightarrow> m)
      in doc\<lparr>doc_schemes := Some (aput SecuritySchemeName
           \<lparr>scheme_Type = ''apiKey'', scheme_In = ''header'', scheme_Name = APIKeyHeader\<rparr> schemes)\<rparr>)"

definition DocumentSecurity :: "openapi_doc \<Rightarrow> openapi_doc" where
  "DocumentSecurity doc =
     (let doc' = RegisterSecurityScheme doc in doc'\<lparr>doc_paths := ApplySecurity (doc_paths doc')\<rparr>)"

section \<open>Resources from actions\<close>

definition pascalCase :: "string \<Rightarrow> string" where
  "pascalCase s = (case s of [] \<Rightarrow> [] | c # cs \<Rightarrow> ToUpper1 c @ cs)"

definition resourceTypeFromAction :: "entity_uid \<Rightarrow> entity_uid" where
  "resourceTypeFromAction action =
     (case Cut (uid_ID action) (CHR '':'') of
        (resource, _, found) \<Rightarrow>
          if \<not> found \<or> resource = [] then zero_uid
          else \<lparr>uid_Type = pascalCase resource, uid_ID = []\<rparr>)"

lemma declarationFrom_Require [simp]:
  "Metadata oper = Some (Require a ps) \<Longrightarrow>
   declarationFrom (Some oper) = Some \<lparr>decl_kind = KindRequire, decl_action = a,
     decl_idParam = (case ps of [] \<Rightarrow> [] | p # _ \<Rightarrow> p)\<rparr>"
  by (cases ps) (simp_all add: declarationFrom_def Require_def)

lemma declarationFrom_Public [simp]:
  "Metadata oper = Some Public \<Longrightarrow>
   declarationFrom (Some oper) = Some \<lparr>decl_kind = KindPublic, decl_action = zero_uid, decl_idParam = []\<rparr>"
  by (simp add: declarationFrom_def Public_def)

end
