(* ===== verification/GoHttp.thy ===== *)
theory GoHttp
  imports GoJson AuthzCore
begin

text \<open>
  \<open>net/http\<close> as the program uses it: requests, the response writer with its commit point, handlers and
  middleware, and panics.  Everything a handler can observe or change besides its response is the
  \<open>world\<close>: the clock, the instant the server cancelled the request's context (when the client went
  away), the log, the metrics and the application's own state.

  A handler returns or panics; a deferred function is the code that runs in both cases.
\<close>

section \<open>Requests and responses\<close>

record http_request =
  r_Method :: string
  r_Path :: string
  r_Header :: "(string \<times> string) list"
  r_RemoteAddr :: string
  r_Context :: request_ctx

definition WithContext :: "http_request \<Rightarrow> request_ctx \<Rightarrow> http_request" where
  "WithContext r ctx = r\<lparr>r_Context := ctx\<rparr>"

text \<open>
  \<open>WriteHeader\<close> commits the status and the headers set so far; later calls are ignored (the server
  logs them as superfluous), and a \<open>Write\<close> without it commits 200.
\<close>

record response =
  rs_header :: "(string \<times> string) list"
  rs_committed :: "(nat \<times> (string \<times> string) list) option"
  rs_body :: string

definition empty_response :: response where
  "empty_response = \<lparr>rs_header = [], rs_committed = None, rs_body = []\<rparr>"

definition SetHeader :: "string \<Rightarrow> string \<Rightarrow> response \<Rightarrow> response" where
  "SetHeader k v rs = rs\<lparr>rs_header := aput k v (rs_header rs)\<rparr>"

definition WriteHeader :: "nat \<Rightarrow> response \<Rightarrow> response" where
  "WriteHeader status rs =
     (case rs_committed rs of
        None \<Rightarrow> rs\<lparr>rs_committed := Some (status, rs_header rs)\<rparr>
      | Some _ \<Rightarrow> rs)"

definition Write_body :: "string \<Rightarrow> response \<Rightarrow> response" where
  "Write_body bytes rs = (let rs' = WriteHeader 200 rs in rs'\<lparr>rs_body := rs_body rs' @ bytes\<rparr>)"

text \<open>\<open>Status()\<close> of chi's wrapped writer: 0 until something was written.\<close>

definition Status_of :: "response \<Rightarrow> nat" where
  "Status_of rs = (case rs_committed rs of None \<Rightarrow> 0 | Some (status, _) \<Rightarrow> status)"

text \<open>What the client gets once the handler has returned: 200 when nothing was written.\<close>

definition client_status :: "response \<Rightarrow> nat" where
  "client_status rs = (case rs_committed rs of None \<Rightarrow> 200 | Some (status, _) \<Rightarrow> status)"

section \<open>The world\<close>

text \<open>An entry carries the request id of the logger that wrote it, or none.\<close>

record log_entry =
  le_scope :: "string option"
  le_level :: int
  le_msg :: string
  le_attrs :: "(string \<times> log_value) list"

text \<open>The collectors of the metrics registry: a gauge, a counter and a histogram with their labels.\<close>

record metrics =
  inFlight :: int
  requests :: "((string \<times> string \<times> string) \<times> nat) list"
  durations :: "((string \<times> string) \<times> duration) list"

record 'w world =
  w_now :: time
  w_gone :: "time option"
  w_log :: "log_entry list"
  w_metrics :: metrics
  w_app :: 'w

definition log_to :: "logger \<Rightarrow> int \<Rightarrow> string \<Rightarrow> (string \<times> log_value) list \<Rightarrow> 'w world \<Rightarrow> 'w world" where
  "log_to lg level msg attrs w =
     (if \<not> logs_at lg level then w
      else w\<lparr>w_log := w_log w @ [\<lparr>le_scope = lg_scope lg, le_level = level, le_msg = msg, le_attrs = attrs\<rparr>]\<rparr>)"

section \<open>Handlers\<close>

definition ErrAbortHandler :: go_error where
  [go_defs]: "ErrAbortHandler = Sentinel ''http.ErrAbortHandler'' ''net/http: abort Handler''"

datatype ending = Returned | Panicking panic_value

type_synonym 'w http_handler = "http_request \<Rightarrow> response \<Rightarrow> 'w world \<Rightarrow> ending \<times> response \<times> 'w world"
type_synonym 'w http_middleware = "'w http_handler \<Rightarrow> 'w http_handler"

text \<open>chi applies the middlewares outermost first.\<close>

fun use_all :: "'w http_middleware list \<Rightarrow> 'w http_handler \<Rightarrow> 'w http_handler" where
  "use_all [] h = h"
| "use_all (m # ms) h = m (use_all ms h)"

lemma use_all_append: "use_all (ms @ ms') h = use_all ms (use_all ms' h)"
  by (induction ms) auto

section \<open>Status texts\<close>

text \<open>\<open>http.StatusText\<close>.\<close>

definition status_texts :: "(nat \<times> string) list" where
  "status_texts =
     [(100, ''Continue''), (101, ''Switching Protocols''), (102, ''Processing''), (103, ''Early Hints''),
      (200, ''OK''), (201, ''Created''), (202, ''Accepted''), (203, ''Non-Authoritative Information''),
      (204, ''No Content''), (205, ''Reset Content''), (206, ''Partial Content''), (207, ''Multi-Status''),
      (208, ''Already Reported''), (226, ''IM Used''),
      (300, ''Multiple Choices''), (301, ''Moved Permanently''), (302, ''Found''), (303, ''See Other''),
      (304, ''Not Modified''), (305, ''Use Proxy''), (307, ''Temporary Redirect''), (308, ''Permanent Redirect''),
      (400, ''Bad Request''), (401, ''Unauthorized''), (402, ''Payment Required''), (403, ''Forbidden''),
      (404, ''Not Found''), (405, ''Method Not Allowed''), (406, ''Not Acceptable''),
      (407, ''Proxy Authentication Required''), (408, ''Request Timeout''), (409, ''Conflict''), (410, ''Gone''),
      (411, ''Length Required''), (412, ''Precondition Failed''), (413, ''Request Entity Too Large''),
      (414, ''Request URI Too Long''), (415, ''Unsupported Media Type''), (416, ''Requested Range Not Satisfiable''),
      (417, ''Expectation Failed''), (418, [CHR ''I'', CHR 0x27] @ ''m a teapot''), (421, ''Misdirected Request''),
      (422, ''Unprocessable Entity''), (423, ''Locked''), (424, ''Failed Dependency''), (425, ''Too Early''),
      (426, ''Upgrade Required''), (428, ''Precondition Required''), (429, ''Too Many Requests''),
      (431, ''Request Header Fields Too Large''), (451, ''Unavailable For Legal Reasons''),
      (500, ''Internal Server Error''), (501, ''Not Implemented''), (502, ''Bad Gateway''),
      (503, ''Service Unavailable''), (504, ''Gateway Timeout''), (505, ''HTTP Version Not Supported''),
      (506, ''Variant Also Negotiates''), (507, ''Insufficient Storage''), (508, ''Loop Detected''),
      (510, ''Not Extended''), (511, ''Network Authentication Required'')]"

definition StatusText :: "nat \<Rightarrow> string" where
  "StatusText n = (case map_of status_texts n of Some t \<Rightarrow> t | None \<Rightarrow> [])"

section \<open>Lemmas\<close>

lemma WriteHeader_committed [simp]: "rs_committed rs = Some c \<Longrightarrow> WriteHeader status rs = rs"
  by (simp add: WriteHeader_def)

lemma rs_committed_Write [simp]: "rs_committed (Write_body b rs) = rs_committed (WriteHeader 200 rs)"
  by (simp add: Write_body_def Let_def)

lemma WriteHeader_some [simp]: "rs_committed (WriteHeader status rs) \<noteq> None"
  by (simp add: WriteHeader_def split: option.split)

lemma Write_idem [simp]: "WriteHeader status (WriteHeader status' rs) = WriteHeader status' rs"
  by (cases "rs_committed rs") (simp_all add: WriteHeader_def)

lemma log_to_frame [simp]:
  "w_now (log_to lg lv msg attrs w) = w_now w" "w_gone (log_to lg lv msg attrs w) = w_gone w"
  "w_metrics (log_to lg lv msg attrs w) = w_metrics w" "w_app (log_to lg lv msg attrs w) = w_app w"
  by (simp_all add: log_to_def)

end
