(* ===== verification/HttpMiddleware.thy ===== *)
theory HttpMiddleware
  imports GoHttp
begin

text \<open>
  Problem documents (\<open>internal/adapter/http/problem\<close>) and the transport middleware of
  \<open>internal/adapter/http/middleware\<close>: client IP, CORS, panic recovery and the request timeout.

  chi and go-chi/cors are parameters (\<open>chi_lib\<close>, \<open>cors\<close>): how a peer or header becomes a client IP, the
  request id, and the CORS handler.
\<close>

section \<open>problem.go\<close>

definition ContentType :: string where
  [go_defs]: "ContentType = ''application/problem+json''"

definition problem_json :: "nat \<Rightarrow> string \<Rightarrow> string" where
  "problem_json status detail =
     CHR 0x7B # json_string ''title'' @ CHR '':'' # json_string (StatusText status) @
     CHR '','' # json_string ''status'' @ CHR '':'' # Itoa (int status) @
     CHR '','' # json_string ''detail'' @ CHR '':'' # json_string detail @ [CHR 0x7D, CHR 0x0A]"

definition problem_Write :: "nat \<Rightarrow> string \<Rightarrow> response \<Rightarrow> response" where
  "problem_Write status detail rs =
     Write_body (problem_json status detail) (WriteHeader status (SetHeader ''Content-Type'' ContentType rs))"

section \<open>clientip.go\<close>

record chi_lib =
  ClientIPFromHeader :: "string \<Rightarrow> http_request \<Rightarrow> string"
  ClientIPFromRemoteAddr :: "http_request \<Rightarrow> string"
  chi_RequestID :: "http_request \<Rightarrow> string"

definition with_ctx :: "(http_request \<Rightarrow> request_ctx) \<Rightarrow> 'w http_middleware" where
  "with_ctx f nxt r = nxt (WithContext r (f r))"

definition ClientIP :: "chi_lib \<Rightarrow> string \<Rightarrow> 'w http_middleware" where
  "ClientIP chi trustedProxyHeader =
     (if trustedProxyHeader \<noteq> []
      then with_ctx (\<lambda>r. (r_Context r)\<lparr>ctx_clientIP := ClientIPFromHeader chi trustedProxyHeader r\<rparr>)
      else with_ctx (\<lambda>r. (r_Context r)\<lparr>ctx_clientIP := ClientIPFromRemoteAddr chi r\<rparr>))"

text \<open>chi's \<open>RequestID\<close> stores the id on the context.\<close>

definition RequestID :: "chi_lib \<Rightarrow> 'w http_middleware" where
  "RequestID chi = with_ctx (\<lambda>r. (r_Context r)\<lparr>ctx_reqID := chi_RequestID chi r\<rparr>)"

section \<open>cors.go\<close>

record cors_options =
  AllowedOrigins :: "string list"
  AllowedMethods :: "string list"
  AllowedHeaders :: "string list"
  AllowCredentials :: bool
  MaxAge :: nat

definition corsMaxAgeSeconds :: nat where
  [go_defs]: "corsMaxAgeSeconds = 300"

definition CORS :: "(cors_options \<Rightarrow> 'w http_middleware) \<Rightarrow> string list \<Rightarrow> 'w http_middleware" where
  "CORS cors_Handler origins =
     cors_Handler
       \<lparr>AllowedOrigins = origins,
        AllowedMethods = [''GET'', ''POST'', ''PUT'', ''PATCH'', ''DELETE'', ''OPTIONS''],
        AllowedHeaders = [''Accept'', ''Authorization'', ''Content-Type''],
        AllowCredentials = False,
        MaxAge = corsMaxAgeSeconds\<rparr>"

section \<open>recover.go\<close>

definition aborts :: "panic_value \<Rightarrow> bool" where
  "aborts p = (case p of PanicError e \<Rightarrow> errors_Is e ErrAbortHandler | PanicValue _ \<Rightarrow> False)"

definition Recoverer :: "logger \<Rightarrow> 'w http_middleware" where
  "Recoverer base nxt r rs w =
     (case nxt r rs w of
        (Returned, rs', w') \<Rightarrow> (Returned, rs', w')
      | (Panicking p, rs', w') \<Rightarrow>
          (if aborts p then (Panicking p, rs', w')
           else (Returned, problem_Write 500 ''internal server error'' rs',
                 log_to (case From (r_Context r) of Some scoped \<Rightarrow> scoped | None \<Rightarrow> base) LevelError ''recovered from panic'' [(''panic'', LPanic p)] w')))"

section \<open>timeout.go\<close>

definition WithTimeout :: "time \<Rightarrow> duration \<Rightarrow> request_ctx \<Rightarrow> request_ctx" where
  "WithTimeout now d ctx =
     (let t = now + d in
      ctx\<lparr>ctx_deadline := Some (case ctx_deadline ctx of None \<Rightarrow> t | Some t' \<Rightarrow> min t t')\<rparr>)"

text \<open>
  \<open>ctx.Err()\<close> is \<open>DeadlineExceeded\<close> when the deadline passed before the context was cancelled, whether by
  the server (the client went away) or by the deferred \<open>cancel()\<close> itself.
\<close>

definition deadline_exceeded :: "request_ctx \<Rightarrow> 'w world \<Rightarrow> bool" where
  "deadline_exceeded ctx w =
     (case ctx_deadline ctx of
        None \<Rightarrow> False
      | Some t \<Rightarrow> t \<le> w_now w \<and> (case w_gone w of None \<Rightarrow> True | Some g \<Rightarrow> t \<le> g))"

definition Timeout :: "duration \<Rightarrow> 'w http_middleware" where
  "Timeout d nxt r rs w =
     (let ctx = WithTimeout (w_now w) d (r_Context r) in
      case nxt (WithContext r ctx) rs w of
        (out, rs', w') \<Rightarrow>
          (out, (if deadline_exceeded ctx w' then problem_Write 504 ''the request timed out'' rs' else rs'), w'))"

section \<open>Lemmas\<close>

lemma problem_Write_status [simp]:
  "client_status (problem_Write status detail rs) = (case rs_committed rs of None \<Rightarrow> status | Some (s, _) \<Rightarrow> s)"
  "Status_of (problem_Write status detail rs) = (case rs_committed rs of None \<Rightarrow> status | Some (s, _) \<Rightarrow> s)"
  "rs_committed (problem_Write status detail rs) \<noteq> None"
  by (auto simp: problem_Write_def client_status_def Status_of_def WriteHeader_def SetHeader_def split: option.splits)

lemma problem_Write_fresh:
  "rs_committed rs = None \<Longrightarrow>
   rs_committed (problem_Write status detail rs) = Some (status, aput ''Content-Type'' ContentType (rs_header rs))
   \<and> rs_body (problem_Write status detail rs) = rs_body rs @ problem_json status detail"
  by (simp add: problem_Write_def Write_body_def WriteHeader_def SetHeader_def Let_def)

lemma client_status_Returned: "rs_committed rs \<noteq> None \<Longrightarrow> Status_of rs = client_status rs"
  by (auto simp: Status_of_def client_status_def)

end
