(* ===== verification/AuthzEngine.thy ===== *)
theory AuthzEngine
  imports AuthzCore
begin

text \<open>
  The construction of the authorization engine: \<open>Contribution\<close> and \<open>EntityResolver\<close> of
  \<open>internal/authz/contribution.go\<close>, and \<open>New\<close> with its helpers of \<open>internal/authz/authz.go\<close>.

  Parameters for code outside the repository: the Cedar parser
  (\<open>cedar.NewPolicyListFromBytes\<close>, a function from a file name and a document to a list of
  policies of an arbitrary type \<open>'p\<close>) and the file system (\<open>os.ReadDir\<close>, \<open>os.ReadFile\<close>).  A
  \<open>PolicySet\<close> is a map from policy ids to policies, kept as an association list.
\<close>

section \<open>Contributions and resolvers\<close>

text \<open>
  A resolver acts on a world of type \<open>'w\<close> (the stores it reads).  Resolving returns the entity and
  whether it was found, the errors it reported through \<open>RecordLoadError\<close> while doing so, and the
  world afterwards.
\<close>

type_synonym 'w resolve_fn = "entity_uid \<Rightarrow> 'w \<Rightarrow> (entity \<times> bool) \<times> go_error list \<times> 'w"

datatype 'w resolver =
    PrincipalResolver principal
  | SliceResolver "string list" "'w resolve_fn"
  | PrincipalFirst "'w resolver" "'w resolver"

fun resolver_Types :: "'w resolver \<Rightarrow> string list" where
  "resolver_Types (PrincipalResolver p) = [uid_Type (UID p)]"
| "resolver_Types (SliceResolver ts f) = ts"
| "resolver_Types (PrincipalFirst p fallback) = resolver_Types p @ resolver_Types fallback"

fun Resolve :: "'w resolver \<Rightarrow> 'w resolve_fn" where
  "Resolve (PrincipalResolver p) uid w = (principalResolve p uid, [], w)"
| "Resolve (SliceResolver ts f) uid w = f uid w"
| "Resolve (PrincipalFirst p fallback) uid w =
     (case Resolve p uid w of
        ((ent, True), errs, w') \<Rightarrow> ((ent, True), errs, w')
      | ((_, False), errs, w') \<Rightarrow>
          (case Resolve fallback uid w' of (r, errs', w'') \<Rightarrow> (r, errs @ errs', w'')))"

record 'w contribution =
  Policies :: string
  Actions :: "entity_uid list"
  Types :: "string list"
  Resolver :: "(principal \<Rightarrow> 'w resolver) option"

definition principalContribution :: "'w contribution" where
  "principalContribution =
     \<lparr>Policies = [], Actions = [], Types = reservedTypes, Resolver = Some PrincipalResolver\<rparr>"

record ('w, 'p) authorizer =
  policies :: "(string \<times> 'p) list"
  contributions :: "'w contribution list"

section \<open>Type ownership\<close>

fun validate_types :: "nat \<Rightarrow> string list \<Rightarrow> (string \<times> nat) list \<Rightarrow> (string \<times> nat) list result" where
  "validate_types i [] owner = Inr owner"
| "validate_types i (t # ts) owner =
     (if t \<in> set reservedTypes then
        Inl (ErrorFmt ''contribution %d claims reserved principal type %q: it is owned by the base principal resolver and cannot be overridden'' [digits_of i, t])
      else
        case map_of owner t of
          Some prev \<Rightarrow> Inl (ErrorFmt ''contributions %d and %d both claim entity type %q: each Cedar entity type must be owned by exactly one slice'' [digits_of prev, digits_of i, t])
        | None \<Rightarrow> validate_types i ts (aput t i owner))"

fun validate_from :: "nat \<Rightarrow> 'w contribution list \<Rightarrow> (string \<times> nat) list \<Rightarrow> go_error option" where
  "validate_from i [] owner = None"
| "validate_from i (c # cs) owner =
     (if Resolver c \<noteq> None \<and> Types c = [] then
        Some (ErrorFmt ''contribution %d supplies a Resolver but declares no Types: a resolver is routed only by the types it owns, so it would never be invoked'' [digits_of i])
      else
        case validate_types i (Types c) owner of
          Inl e \<Rightarrow> Some e
        | Inr owner' \<Rightarrow> validate_from (Suc i) cs owner')"

definition validateTypeOwnership :: "'w contribution list \<Rightarrow> go_error option" where
  "validateTypeOwnership cs = validate_from 0 cs []"

section \<open>Base policies\<close>

record dir_entry =
  entry_Name :: string
  entry_IsDir :: bool

record file_system =
  fs_ReadDir :: "string \<Rightarrow> dir_entry list result"
  fs_ReadFile :: "string \<Rightarrow> string \<Rightarrow> string result"

text \<open>\<open>filepath.Ext\<close> of a file name: from its last dot on.\<close>

definition filepath_Ext :: "string \<Rightarrow> string" where
  "filepath_Ext name =
     (if CHR ''.'' \<in> set name then CHR ''.'' # rev (takeWhile (\<lambda>c. c \<noteq> CHR ''.'') (rev name)) else [])"

fun read_policies :: "file_system \<Rightarrow> string \<Rightarrow> string list \<Rightarrow> string result" where
  "read_policies fs dir [] = Inr []"
| "read_policies fs dir (name # names) =
     (case fs_ReadFile fs dir name of
        Inl e \<Rightarrow> Inl (Errorf ''read policy file %q: %w'' [name] e)
      | Inr content \<Rightarrow>
          (case read_policies fs dir names of
             Inl e \<Rightarrow> Inl e
           | Inr rest \<Rightarrow> Inr (content @ [CHR 0x0A] @ rest)))"

definition loadBasePolicies :: "string \<Rightarrow> file_system \<Rightarrow> string \<Rightarrow> string result" where
  "loadBasePolicies basePolicies fs dir =
     (if dir = [] then Inr basePolicies
      else case fs_ReadDir fs dir of
        Inl e \<Rightarrow> Inl (Errorf ''read policy directory %q: %w'' [dir] e)
      | Inr entries \<Rightarrow>
          (let names = map entry_Name
                 (filter (\<lambda>e. \<not> (entry_IsDir e \<or> filepath_Ext (entry_Name e) \<noteq> ''.cedar'')) entries)
           in if names = [] then Inl (ErrorFmt ''policy directory %q contains no .cedar files'' [dir])
              else read_policies fs dir (sort names)))"

section \<open>Merging\<close>

definition policy_id :: "string \<Rightarrow> nat \<Rightarrow> string" where
  "policy_id slice n = slice @ ''#'' @ digits_of n"

fun add_policies :: "string \<Rightarrow> nat \<Rightarrow> 'p list \<Rightarrow> (string \<times> 'p) list \<Rightarrow> (string \<times> 'p) list" where
  "add_policies slice n [] dst = dst"
| "add_policies slice n (p # ps) dst = add_policies slice (Suc n) ps (aput (policy_id slice n) p dst)"

type_synonym 'p cedar_parser = "string \<Rightarrow> string \<Rightarrow> 'p list result"

definition mergePolicies :: "'p cedar_parser \<Rightarrow> string \<Rightarrow> string \<Rightarrow> (string \<times> 'p) list \<Rightarrow> (string \<times> 'p) list result" where
  "mergePolicies parse slice document dst =
     (case parse (slice @ ''.cedar'') document of
        Inl e \<Rightarrow> Inl (Errorf ''parse policies: %w'' [] e)
      | Inr ps \<Rightarrow> Inr (add_policies slice 0 ps dst))"

definition baseSlice :: string where
  [go_defs]: "baseSlice = ''base''"

definition slice_name :: "nat \<Rightarrow> string" where
  "slice_name i = ''slice'' @ digits_of i"

fun merge_slices :: "'p cedar_parser \<Rightarrow> nat \<Rightarrow> 'w contribution list \<Rightarrow> (string \<times> 'p) list \<Rightarrow> (string \<times> 'p) list result" where
  "merge_slices parse i [] dst = Inr dst"
| "merge_slices parse i (c # cs) dst =
     (if Policies c = [] then merge_slices parse (Suc i) cs dst
      else case mergePolicies parse (slice_name i) (Policies c) dst of
        Inl e \<Rightarrow> Inl (Errorf ''merge contribution %d policies: %w'' [digits_of i] e)
      | Inr dst' \<Rightarrow> merge_slices parse (Suc i) cs dst')"

text \<open>
  The options are applied in order; \<open>WithPolicyDir\<close>, the only one, sets the policy directory.
\<close>

definition WithPolicyDir :: "string \<Rightarrow> string \<Rightarrow> string" where
  "WithPolicyDir dir cfg_policyDir = dir"

definition New :: "string \<Rightarrow> file_system \<Rightarrow> 'p cedar_parser \<Rightarrow> 'w contribution list \<Rightarrow> (string \<Rightarrow> string) list
    \<Rightarrow> ('w, 'p) authorizer result" where
  "New basePolicies fs parse cs opts =
     (let policyDir = fold (\<lambda>opt cfg. opt cfg) opts [] in
      case validateTypeOwnership cs of
        Some e \<Rightarrow> Inl e
      | None \<Rightarrow>
          (case loadBasePolicies basePolicies fs policyDir of
             Inl e \<Rightarrow> Inl e
           | Inr base \<Rightarrow>
               (case mergePolicies parse baseSlice base [] of
                  Inl e \<Rightarrow> Inl (Errorf ''merge base policies: %w'' [] e)
                | Inr merged \<Rightarrow>
                    (case merge_slices parse 0 cs merged of
                       Inl e \<Rightarrow> Inl e
                     | Inr merged' \<Rightarrow> Inr \<lparr>policies = merged', contributions = principalContribution # cs\<rparr>))))"

section \<open>Lemmas\<close>

definition types_ok :: "'w contribution list \<Rightarrow> bool" where
  "types_ok cs \<longleftrightarrow> (\<forall>c \<in> set cs. Resolver c \<noteq> None \<longrightarrow> Types c \<noteq> [])
     \<and> set (concat (map Types cs)) \<inter> set reservedTypes = {}
     \<and> distinct (concat (map Types cs))"

lemma validate_types_iff:
  "(\<exists>owner'. validate_types i ts owner = Inr owner') \<longleftrightarrow>
     set ts \<inter> set reservedTypes = {} \<and> distinct ts \<and> set ts \<inter> dom (map_of owner) = {}"
proof (induction i ts owner rule: validate_types.induct)
  case (2 i t ts owner)
  show ?case
  proof (cases "t \<in> set reservedTypes \<or> map_of owner t \<noteq> None")
    case True
    then show ?thesis by auto
  next
    case False
    then have step: "validate_types i (t # ts) owner = validate_types i ts (aput t i owner)" by auto
    from False have nr: "t \<notin> set reservedTypes" and no: "map_of owner t = None" by auto
    note IH = "2.IH" [OF nr no]
    have dom: "dom (map_of (aput t i owner)) = insert t (dom (map_of owner))" by simp
    have "t \<notin> dom (map_of owner)" using False by auto
    with False show ?thesis unfolding step IH dom by auto
  qed
qed simp

lemma validate_types_owner:
  "validate_types i ts owner = Inr owner' \<Longrightarrow> dom (map_of owner') = dom (map_of owner) \<union> set ts"
  by (induction i ts owner rule: validate_types.induct) (auto split: if_splits option.splits)

lemma validate_from_iff:
  "validate_from i cs owner = None \<longleftrightarrow>
     types_ok cs \<and> set (concat (map Types cs)) \<inter> dom (map_of owner) = {}"
proof (induction i cs owner rule: validate_from.induct)
  case (1 i owner)
  then show ?case by (simp add: types_ok_def)
next
  case (2 i c cs owner)
  show ?case
  proof (cases "Resolver c \<noteq> None \<and> Types c = []")
    case True
    then show ?thesis by (auto simp: types_ok_def)
  next
    case False
    show ?thesis
    proof (cases "validate_types i (Types c) owner")
      case (Inl e)
      then have "\<not> (\<exists>owner'. validate_types i (Types c) owner = Inr owner')" by simp
      with False Inl show ?thesis unfolding validate_types_iff by (auto simp: types_ok_def)
    next
      case (Inr owner')
      then have "\<exists>owner'. validate_types i (Types c) owner = Inr owner'" by simp
      then have own: "set (Types c) \<inter> set reservedTypes = {}" "distinct (Types c)"
        "set (Types c) \<inter> dom (map_of owner) = {}" unfolding validate_types_iff by auto
      have "validate_from i (c # cs) owner = validate_from (Suc i) cs owner'" using False Inr by auto
      moreover have "validate_from (Suc i) cs owner' = None \<longleftrightarrow>
          types_ok cs \<and> set (concat (map Types cs)) \<inter> dom (map_of owner') = {}" using "2.IH" [OF False Inr] .
      moreover have "types_ok (c # cs) \<longleftrightarrow> types_ok cs \<and> set (concat (map Types cs)) \<inter> set (Types c) = {}"
        using False own unfolding types_ok_def by auto
      ultimately show ?thesis using own unfolding validate_types_owner [OF Inr] by auto
    qed
  qed
qed

lemma validateTypeOwnership_iff: "validateTypeOwnership cs = None \<longleftrightarrow> types_ok cs"
  by (simp add: validateTypeOwnership_def validate_from_iff)

lemma New_ok:
  assumes "New bp fs parse cs opts = Inr A"
  shows "types_ok cs \<and> contributions A = principalContribution # cs"
  using assms by (auto simp: New_def Let_def validateTypeOwnership_iff [symmetric] split: sum.splits option.splits)

subsection \<open>Policy ids\<close>

lemma distinct_add_policies: "distinct (map fst dst) \<Longrightarrow> distinct (map fst (add_policies slice n ps dst))"
  by (induction slice n ps dst rule: add_policies.induct) auto

lemma distinct_merge_slices:
  "merge_slices parse i cs dst = Inr dst' \<Longrightarrow> distinct (map fst dst) \<Longrightarrow> distinct (map fst dst')"
  by (induction parse i cs dst rule: merge_slices.induct)
     (auto simp: mergePolicies_def distinct_add_policies split: if_splits sum.splits)

definition numbered :: "string \<Rightarrow> nat \<Rightarrow> 'p list \<Rightarrow> (string \<times> 'p) list" where
  "numbered slice n ps = map (\<lambda>(k, p). (policy_id slice k, p)) (enumerate n ps)"

lemma aput_fresh: "k \<notin> fst ` set m \<Longrightarrow> aput k v m = m @ [(k, v)]"
  by (induction k v m rule: aput.induct) auto

lemma policy_id_inj:
  assumes "CHR ''#'' \<notin> set s" and "CHR ''#'' \<notin> set s'"
  shows "policy_id s n = policy_id s' n' \<longleftrightarrow> s = s' \<and> n = n'"
proof
  assume eq: "policy_id s n = policy_id s' n'"
  have "Cut (policy_id s n) (CHR ''#'') = (s, digits_of n, True)"
    and "Cut (policy_id s' n') (CHR ''#'') = (s', digits_of n', True)"
    using assms by (simp_all add: Cut_found policy_id_def)
  with eq have "(s, digits_of n) = (s', digits_of n')" by (metis Pair_inject)
  then show "s = s' \<and> n = n'" by (simp add: digits_of_inj)
qed simp

lemma policy_id_same [simp]: "policy_id s m = policy_id s n \<longleftrightarrow> m = n"
  by (simp add: policy_id_def digits_of_inj)

lemma add_policies_eq:
  "(\<And>m. n \<le> m \<Longrightarrow> policy_id slice m \<notin> fst ` set dst) \<Longrightarrow> add_policies slice n ps dst = dst @ numbered slice n ps"
proof (induction slice n ps dst rule: add_policies.induct)
  case (1 slice n dst)
  then show ?case by (simp add: numbered_def)
next
  case (2 slice n p ps dst)
  have put: "aput (policy_id slice n) p dst = dst @ [(policy_id slice n, p)]"
    using "2.prems" [of n] by (simp add: aput_fresh)
  have "policy_id slice m \<notin> fst ` set (aput (policy_id slice n) p dst)" if "Suc n \<le> m" for m
    using that "2.prems" [of m] unfolding put by simp
  from "2.IH" [OF this] put show ?case by (simp add: numbered_def)
qed

lemma hash_free [simp]: "CHR ''#'' \<notin> set baseSlice" "CHR ''#'' \<notin> set (slice_name i)"
  using digits_of_digit [of "CHR ''#''" i] by (auto simp: go_defs slice_name_def between_def)

lemma slice_name_inj [simp]: "slice_name i = slice_name j \<longleftrightarrow> i = j" "baseSlice \<noteq> slice_name i" "slice_name i \<noteq> baseSlice"
  by (simp_all add: slice_name_def digits_of_inj go_defs)

definition ids_within :: "string set \<Rightarrow> (string \<times> 'p) list \<Rightarrow> bool" where
  "ids_within S dst \<longleftrightarrow> (\<forall>k \<in> fst ` set dst. \<exists>s \<in> S. \<exists>n. k = policy_id s n)"

lemma ids_within_numbered: "s \<in> S \<Longrightarrow> ids_within S (numbered s n ps)"
  by (fastforce simp: ids_within_def numbered_def)

lemma mergePolicies_eq:
  assumes "mergePolicies parse slice doc dst = Inr dst'" and "ids_within S dst" and "slice \<notin> S"
    and "\<forall>s \<in> insert slice S. CHR ''#'' \<notin> set s"
  shows "\<exists>ps. parse (slice @ ''.cedar'') doc = Inr ps \<and> dst' = dst @ numbered slice 0 ps
           \<and> ids_within (insert slice S) dst'"
proof -
  from assms(1) obtain ps where ps: "parse (slice @ ''.cedar'') doc = Inr ps" "dst' = add_policies slice 0 ps dst"
    by (auto simp: mergePolicies_def split: sum.splits)
  have "policy_id slice m \<notin> fst ` set dst" for m
    using assms(2-4) policy_id_inj unfolding ids_within_def by (metis insertCI)
  with ps assms(4) have "dst' = dst @ numbered slice 0 ps" by (simp add: add_policies_eq)
  moreover have "ids_within (insert slice S) dst'"
    using assms(2) ids_within_numbered [of slice "insert slice S" 0 ps] calculation
    by (fastforce simp: ids_within_def)
  ultimately show ?thesis using ps by blast
qed

text \<open>The policies a slice contributes, as parsed from its document.\<close>

definition slice_policies :: "'p cedar_parser \<Rightarrow> nat \<times> 'w contribution \<Rightarrow> 'p list" where
  "slice_policies parse = (\<lambda>(i, c). if Policies c = [] then [] else
     (case parse (slice_name i @ ''.cedar'') (Policies c) of Inl _ \<Rightarrow> [] | Inr ps \<Rightarrow> ps))"

definition slice_block :: "'p cedar_parser \<Rightarrow> nat \<times> 'w contribution \<Rightarrow> (string \<times> 'p) list" where
  "slice_block parse ic = numbered (slice_name (fst ic)) 0 (slice_policies parse ic)"

lemma merge_slices_eq:
  assumes "merge_slices parse i cs dst = Inr dst'" and "ids_within (insert baseSlice (slice_name ` {..<i})) dst"
  shows "dst' = dst @ concat (map (slice_block parse) (enumerate i cs))"
  using assms
proof (induction parse i cs dst rule: merge_slices.induct)
  case (1 parse i dst)
  then show ?case by simp
next
  case (2 parse i c cs dst)
  let ?S = "insert baseSlice (slice_name ` {..<i})"
  have S: "insert (slice_name i) ?S = insert baseSlice (slice_name ` {..<Suc i})" by (auto simp: lessThan_Suc)
  show ?case
  proof (cases "Policies c = []")
    case True
    have "ids_within (insert baseSlice (slice_name ` {..<Suc i})) dst"
      using "2.prems"(2) unfolding ids_within_def S [symmetric] by blast
    with True 2 show ?thesis by (simp add: slice_block_def slice_policies_def numbered_def)
  next
    case False
    with "2.prems"(1) obtain d where d: "mergePolicies parse (slice_name i) (Policies c) dst = Inr d"
      "merge_slices parse (Suc i) cs d = Inr dst'" by (auto split: sum.splits)
    have "slice_name i \<notin> ?S" "\<forall>s \<in> insert (slice_name i) ?S. CHR ''#'' \<notin> set s" by auto
    from mergePolicies_eq [OF d(1) "2.prems"(2) this] obtain ps where
      ps: "parse (slice_name i @ ''.cedar'') (Policies c) = Inr ps" "d = dst @ numbered (slice_name i) 0 ps"
        "ids_within (insert baseSlice (slice_name ` {..<Suc i})) d" unfolding S by blast
    have blk: "slice_block parse (i, c) = numbered (slice_name i) 0 ps"
      using False ps(1) by (simp add: slice_block_def slice_policies_def)
    have "dst' = d @ concat (map (slice_block parse) (enumerate (Suc i) cs))"
      using "2.IH"(2) [OF False d(1) d(2) ps(3)] .
    with ps blk show ?thesis by simp
  qed
qed

section \<open>Properties\<close>

text \<open>
  C18. Type ownership is checked soundly and completely: construction succeeds only if every slice
  with a resolver declares the types it owns, no slice claims a reserved principal type and no type
  is claimed twice (by two slices or twice by one); and the check rejects nothing else.
\<close>

theorem validateTypeOwnership_spec:
  "validateTypeOwnership cs = None \<longleftrightarrow>
     (\<forall>i < length cs. (Resolver (cs ! i) = None \<or> Types (cs ! i) \<noteq> [])
        \<and> PrincipalType \<notin> set (Types (cs ! i)) \<and> AnonymousType \<notin> set (Types (cs ! i)))
     \<and> distinct (concat (map Types cs))"
  unfolding validateTypeOwnership_iff types_ok_def reservedTypes_def
  by (auto simp: all_set_conv_all_nth)

theorem validateTypeOwnership_spec_witness:
  "validateTypeOwnership [\<lparr>Policies = [], Actions = [], Types = [''Todo''], Resolver = Some PrincipalResolver\<rparr>] = None
   \<and> validateTypeOwnership [\<lparr>Policies = [], Actions = [], Types = [''Todo''], Resolver = None\<rparr>,
        \<lparr>Policies = [], Actions = [], Types = [''Todo''], Resolver = (None :: (principal \<Rightarrow> nat resolver) option)\<rparr>] \<noteq> None"
  unfolding validateTypeOwnership_spec by (simp add: go_defs)

text \<open>
  C19. Merging loses no policy and clashes no id: the policy set of a constructed engine is the base
  policies followed by each slice's policies in order, the \<open>n\<close>-th policy of a slice under the id
  \<open>slice#n\<close>; all ids differ although adding to a policy set overwrites an existing id.
\<close>

theorem New_merges_all_policies:
  assumes "New basePolicies fs parse cs opts = Inr A"
  shows "\<exists>base ps. loadBasePolicies basePolicies fs (fold (\<lambda>opt. opt) opts []) = Inr base
     \<and> parse ''base.cedar'' base = Inr ps
     \<and> policies A = numbered baseSlice 0 ps @ concat (map (slice_block parse) (enumerate 0 cs))
     \<and> distinct (map fst (policies A))"
proof -
  from assms obtain base merged where
    base: "loadBasePolicies basePolicies fs (fold (\<lambda>opt. opt) opts []) = Inr base"
    and m: "mergePolicies parse baseSlice base [] = Inr merged"
    and sl: "merge_slices parse 0 cs merged = Inr (policies A)"
    by (auto simp: New_def Let_def split: sum.splits option.splits)
  have "ids_within {} []" by (simp add: ids_within_def)
  from mergePolicies_eq [OF m this] obtain ps where
    ps: "parse ''base.cedar'' base = Inr ps" "merged = numbered baseSlice 0 ps" "ids_within {baseSlice} merged"
    by (auto simp: baseSlice_def)
  have "ids_within (insert baseSlice (slice_name ` {..<0})) merged" using ps(3) by simp
  from merge_slices_eq [OF sl this] ps have "policies A = numbered baseSlice 0 ps @ concat (map (slice_block parse) (enumerate 0 cs))"
    by simp
  moreover have "distinct (map fst (policies A))"
    using distinct_merge_slices [OF sl] distinct_add_policies [of "[]" baseSlice 0] m
    by (auto simp: mergePolicies_def split: sum.splits)
  ultimately show ?thesis using base ps(1) by blast
qed

definition no_files :: file_system where
  "no_files = \<lparr>fs_ReadDir = (\<lambda>_. Inl (ErrorString ''no such directory'')),
               fs_ReadFile = (\<lambda>_ _. Inl (ErrorString ''no such file''))\<rparr>"

theorem New_merges_all_policies_witness:
  "\<exists>A :: (unit, string) authorizer.
     New ''B'' no_files (\<lambda>f d. Inr [d, f]) [\<lparr>Policies = ''P'', Actions = [], Types = [], Resolver = None\<rparr>] [] = Inr A
     \<and> policies A = [(''base#0'', ''B''), (''base#1'', ''base.cedar''), (''slice0#0'', ''P''), (''slice0#1'', ''slice0.cedar'')]"
proof -
  let ?c = "\<lparr>Policies = ''P'', Actions = [], Types = [], Resolver = None\<rparr> :: unit contribution"
  let ?parse = "\<lambda>f d. Inr [d, f] :: string list result"
  have "validateTypeOwnership [?c] = None"
    by (simp add: validateTypeOwnership_iff types_ok_def)
  then obtain A :: "(unit, string) authorizer" where A: "New ''B'' no_files ?parse [?c] [] = Inr A"
    by (simp add: New_def loadBasePolicies_def mergePolicies_def)
  have "digits_of 0 = ''0''" "digits_of 1 = ''1''" "digits_of (Suc 0) = ''1''" by (simp_all add: digits_of.simps)
  with New_merges_all_policies [OF A] A show ?thesis
    by (auto simp: loadBasePolicies_def numbered_def slice_block_def slice_policies_def policy_id_def slice_name_def baseSlice_def)
qed

end
