(* ===== verification/AuthzGetter.thy ===== *)
theory AuthzGetter
  imports AuthzEngine
begin

text \<open>
  The request-scoped composite entity getter of \<open>internal/authz/getter.go\<close> and the evaluation that
  pulls entities through it.

  \<open>cedar.Authorize\<close> is code outside the repository.  What the getter can see of it is that it asks
  for entities one at a time, may choose the next question by the answers so far, and finally
  returns a decision; \<open>eval_tree\<close> is exactly that, so a theorem about every \<open>eval_tree\<close> holds for
  every version of the policy engine that asks finitely many questions.
\<close>

section \<open>The getter\<close>

record 'w getter =
  byType :: "(string \<times> 'w resolver) list"
  cache :: "(entity_uid \<times> (entity \<times> bool)) list"
  firstErr :: "go_error option"

definition setErr :: "go_error \<Rightarrow> 'w getter \<Rightarrow> 'w getter" where
  "setErr e g = (if firstErr g = None then g\<lparr>firstErr := Some e\<rparr> else g)"

text \<open>
  \<open>RecordLoadError\<close> with the sink found on the context, if any: a nil error and a missing sink are
  no-ops.
\<close>

definition RecordLoadError :: "(go_error \<Rightarrow> 'w getter \<Rightarrow> 'w getter) option \<Rightarrow> go_error option \<Rightarrow> 'w getter \<Rightarrow> 'w getter" where
  "RecordLoadError sink err g =
     (case err of
        None \<Rightarrow> g
      | Some e \<Rightarrow> (case sink of None \<Rightarrow> g | Some f \<Rightarrow> f e g))"

definition Err :: "'w getter \<Rightarrow> go_error option" where
  "Err g = firstErr g"

fun isPrincipalResolver :: "'w resolver \<Rightarrow> bool" where
  "isPrincipalResolver (PrincipalResolver p) = True"
| "isPrincipalResolver _ = False"

definition routePrincipal :: "'w resolver \<Rightarrow> string \<Rightarrow> 'w getter \<Rightarrow> 'w getter" where
  "routePrincipal pr key g =
     (case map_of (byType g) key of
        Some existing \<Rightarrow> g\<lparr>byType := aput key (PrincipalFirst pr existing) (byType g)\<rparr>
      | None \<Rightarrow> g\<lparr>byType := aput key pr (byType g)\<rparr>)"

text \<open>The loop over the contributions: the routes collected so far and the principal resolver seen last.\<close>

fun route_contributions :: "principal \<Rightarrow> 'w contribution list \<Rightarrow> (string \<times> 'w resolver) list \<times> 'w resolver option
    \<Rightarrow> (string \<times> 'w resolver) list \<times> 'w resolver option" where
  "route_contributions p [] st = st"
| "route_contributions p (c # cs) (routes, pr) =
     (case Resolver c of
        None \<Rightarrow> route_contributions p cs (routes, pr)
      | Some factory \<Rightarrow>
          (let r = factory p in
           if isPrincipalResolver r then route_contributions p cs (routes, Some r)
           else route_contributions p cs (fold (\<lambda>t m. aput t r m) (Types c) routes, pr)))"

definition newGetter :: "principal \<Rightarrow> 'w contribution list \<Rightarrow> 'w getter" where
  "newGetter p cs =
     (case route_contributions p cs ([], None) of
        (routes, pr) \<Rightarrow>
          (let g = \<lparr>byType = routes, cache = [], firstErr = None\<rparr> in
           case pr of None \<Rightarrow> g | Some r \<Rightarrow> routePrincipal r (uid_Type (UID p)) g))"

definition Get :: "entity_uid \<Rightarrow> 'w getter \<Rightarrow> 'w \<Rightarrow> (entity \<times> bool) \<times> 'w getter \<times> 'w" where
  "Get uid g w =
     (case map_of (cache g) uid of
        Some hit \<Rightarrow> (hit, g, w)
      | None \<Rightarrow>
          (case map_of (byType g) (uid_Type uid) of
             None \<Rightarrow> ((zero_entity, False), g\<lparr>cache := aput uid (zero_entity, False) (cache g)\<rparr>, w)
           | Some r \<Rightarrow>
               (case Resolve r uid w of
                  (found, errs, w') \<Rightarrow>
                    (let g' = fold (\<lambda>e. RecordLoadError (Some setErr) (Some e)) errs g
                     in (found, g'\<lparr>cache := aput uid found (cache g')\<rparr>, w')))))"

section \<open>Evaluation through the getter\<close>

datatype 'd eval_tree = Decide 'd | Ask entity_uid "entity \<times> bool \<Rightarrow> 'd eval_tree"

primrec run_eval :: "'d eval_tree \<Rightarrow> 'w getter \<Rightarrow> 'w \<Rightarrow> 'd \<times> 'w getter \<times> 'w" where
  "run_eval (Decide d) g w = (d, g, w)"
| "run_eval (Ask uid k) g w = (case Get uid g w of (a, g', w') \<Rightarrow> run_eval (k a) g' w')"

text \<open>Evaluation against a fixed assignment of entities, the semantics Cedar documents.\<close>

primrec pure_eval :: "'d eval_tree \<Rightarrow> (entity_uid \<Rightarrow> entity \<times> bool) \<Rightarrow> 'd" where
  "pure_eval (Decide d) f = d"
| "pure_eval (Ask uid k) f = pure_eval (k (f uid)) f"

section \<open>Lemmas\<close>

lemma fold_setErr:
  "byType (fold (\<lambda>e. RecordLoadError (Some setErr) (Some e)) errs g) = byType g
   \<and> cache (fold (\<lambda>e. RecordLoadError (Some setErr) (Some e)) errs g) = cache g
   \<and> firstErr (fold (\<lambda>e. RecordLoadError (Some setErr) (Some e)) errs g)
       = (case firstErr g of Some e \<Rightarrow> Some e | None \<Rightarrow> (case errs of [] \<Rightarrow> None | e # _ \<Rightarrow> Some e))"
proof (induction errs arbitrary: g)
  case (Cons e errs)
  show ?case
    using Cons [of "RecordLoadError (Some setErr) (Some e) g"]
    by (auto simp: RecordLoadError_def setErr_def split: option.splits)
qed (simp split: option.splits)

lemma fold_setErr_sel [simp]:
  "byType (fold (\<lambda>e. RecordLoadError (Some setErr) (Some e)) errs g) = byType g"
  "cache (fold (\<lambda>e. RecordLoadError (Some setErr) (Some e)) errs g) = cache g"
  "firstErr (fold (\<lambda>e. RecordLoadError (Some setErr) (Some e)) errs g)
     = (case firstErr g of Some e \<Rightarrow> Some e | None \<Rightarrow> (case errs of [] \<Rightarrow> None | e # _ \<Rightarrow> Some e))"
  using fold_setErr by auto

text \<open>The cache only grows, answers what it holds without a load, and the first error sticks.\<close>

lemma Get_cached: "map_of (cache g) uid = Some a \<Longrightarrow> Get uid g w = (a, g, w)"
  by (simp add: Get_def)

lemma Get_spec:
  assumes "Get uid g w = (a, g', w')"
  shows "byType g' = byType g \<and> map_of (cache g') uid = Some a
     \<and> map_of (cache g) \<subseteq>\<^sub>m map_of (cache g')
     \<and> (\<forall>e. firstErr g = Some e \<longrightarrow> firstErr g' = Some e)"
  using assms
  by (auto simp: Get_def map_le_def Let_def split: option.splits prod.splits list.splits)

lemma run_eval_spec:
  assumes "run_eval tree g w = (d, g', w')"
  shows "byType g' = byType g \<and> map_of (cache g) \<subseteq>\<^sub>m map_of (cache g')
     \<and> (\<forall>e. firstErr g = Some e \<longrightarrow> firstErr g' = Some e)
     \<and> (\<forall>f. (\<forall>u a. map_of (cache g') u = Some a \<longrightarrow> f u = a) \<longrightarrow> d = pure_eval tree f)"
  using assms
proof (induction tree arbitrary: g w)
  case (Decide d0)
  then show ?case by simp
next
  case (Ask uid k)
  obtain a g1 w1 where G: "Get uid g w = (a, g1, w1)" by (metis prod_cases3)
  with Ask.prems have R: "run_eval (k a) g1 w1 = (d, g', w')" by simp
  note get = Get_spec [OF G]
  note run = Ask.IH [OF rangeI, of a g1 w1, OF R]
  have "map_of (cache g') uid = Some a"
    using get run by (auto simp: map_le_def dom_def)
  moreover have "map_of (cache g) \<subseteq>\<^sub>m map_of (cache g')"
    using get run map_le_trans by blast
  moreover have "d = pure_eval (Ask uid k) f" if "\<forall>u a. map_of (cache g') u = Some a \<longrightarrow> f u = a" for f
  proof -
    have "f uid = a" using that calculation by blast
    moreover have "d = pure_eval (k a) f" using run that by blast
    ultimately show ?thesis by simp
  qed
  ultimately show ?case using get run by (metis (no_types, lifting))
qed

text \<open>The resolver invocations an evaluation makes, each with the errors it reported.\<close>

primrec load_trace :: "'d eval_tree \<Rightarrow> 'w getter \<Rightarrow> 'w \<Rightarrow> (entity_uid \<times> go_error list) list" where
  "load_trace (Decide d) g w = []"
| "load_trace (Ask uid k) g w =
     (case Get uid g w of
        (a, g', w') \<Rightarrow>
          (if map_of (cache g) uid \<noteq> None then []
           else (case map_of (byType g) (uid_Type uid) of
                   None \<Rightarrow> []
                 | Some r \<Rightarrow> [(uid, fst (snd (Resolve r uid w)))]))
          @ load_trace (k a) g' w')"

lemma load_trace_once:
  assumes "run_eval tree g w = (d, g', w')"
  shows "distinct (map fst (load_trace tree g w))
     \<and> (\<forall>u \<in> fst ` set (load_trace tree g w). map_of (cache g) u = None)"
  using assms
proof (induction tree arbitrary: g w)
  case (Decide d0)
  then show ?case by simp
next
  case (Ask uid k)
  obtain a g1 w1 where G: "Get uid g w = (a, g1, w1)" by (metis prod_cases3)
  with Ask.prems have R: "run_eval (k a) g1 w1 = (d, g', w')" by simp
  note get = Get_spec [OF G]
  note run = Ask.IH [OF rangeI, of a g1 w1, OF R]
  have new: "map_of (cache g) u = None" if "map_of (cache g1) u = None" for u
    using that get by (metis domIff map_le_def)
  have "uid \<notin> fst ` set (load_trace (k a) g1 w1)" using run get by force
  with run new G show ?case by (cases "map_of (cache g) uid") (auto split: option.splits)
qed

lemma load_trace_errors:
  assumes "run_eval tree g w = (d, g', w')"
  shows "firstErr g' = (case firstErr g of Some e \<Rightarrow> Some e
           | None \<Rightarrow> (case concat (map snd (load_trace tree g w)) of [] \<Rightarrow> None | e # _ \<Rightarrow> Some e))"
  using assms
proof (induction tree arbitrary: g w)
  case (Decide d0)
  then show ?case by (auto split: option.splits)
next
  case (Ask uid k)
  obtain a g1 w1 where G: "Get uid g w = (a, g1, w1)" by (metis prod_cases3)
  with Ask.prems have R: "run_eval (k a) g1 w1 = (d, g', w')" by simp
  note run = Ask.IH [OF rangeI, of a g1 w1, OF R]
  show ?case
  proof (cases "map_of (cache g) uid")
    case (Some hit)
    with G have "g1 = g" "w1 = w" by (simp_all add: Get_cached)
    then have same: "load_trace (Ask uid k) g w = load_trace (k a) g1 w1" using Some G by simp
    show ?thesis unfolding same using run \<open>g1 = g\<close> by (simp only:)
  next
    case None
    show ?thesis
    proof (cases "map_of (byType g) (uid_Type uid)")
      case (None)
      with \<open>map_of (cache g) uid = None\<close> G have "firstErr g1 = firstErr g" by (auto simp: Get_def)
      moreover have same: "load_trace (Ask uid k) g w = load_trace (k a) g1 w1"
        using None \<open>map_of (cache g) uid = None\<close> G by simp
      ultimately show ?thesis unfolding same using run by (simp only:)
    next
      case (Some r)
      obtain found errs w2 where res: "Resolve r uid w = (found, errs, w2)" by (metis prod_cases3)
      with None Some G have "firstErr g1 = (case firstErr g of Some e \<Rightarrow> Some e
          | None \<Rightarrow> (case errs of [] \<Rightarrow> None | e # _ \<Rightarrow> Some e))"
        by (auto simp: Get_def Let_def)
      moreover have same: "concat (map snd (load_trace (Ask uid k) g w)) = errs @ concat (map snd (load_trace (k a) g1 w1))"
        using None Some G res by simp
      ultimately show ?thesis unfolding same run by (cases "firstErr g"; cases errs) simp_all
    qed
  qed
qed

subsection \<open>Routing\<close>

lemma map_of_fold_aput: "map_of (fold (\<lambda>t m. aput t r m) ts m) t = (if t \<in> set ts then Some r else map_of m t)"
  by (induction ts arbitrary: m) auto

text \<open>The principal resolver's type is private to the package, so no slice factory builds one.\<close>

definition slices_plain :: "principal \<Rightarrow> 'w contribution list \<Rightarrow> bool" where
  "slices_plain p cs \<longleftrightarrow> (\<forall>c \<in> set cs. \<forall>f. Resolver c = Some f \<longrightarrow> \<not> isPrincipalResolver (f p))"

lemma route_contributions_plain:
  assumes "slices_plain p cs" and "distinct (concat (map Types cs))"
  shows "snd (route_contributions p cs (routes, pr)) = pr
     \<and> (\<forall>t. map_of (fst (route_contributions p cs (routes, pr))) t =
           (case find (\<lambda>c. Resolver c \<noteq> None \<and> t \<in> set (Types c)) cs of
              None \<Rightarrow> map_of routes t
            | Some c \<Rightarrow> Some ((the (Resolver c)) p)))"
  using assms
proof (induction p cs "(routes, pr)" arbitrary: routes pr rule: route_contributions.induct)
  case (1 p)
  then show ?case by simp
next
  case (2 p c cs)
  have plain: "slices_plain p cs" "distinct (concat (map Types cs))"
    using "2.prems" by (auto simp: slices_plain_def)
  show ?case
  proof (cases "Resolver c")
    case None
    with "2.hyps"(1) [OF None plain] show ?thesis by simp
  next
    case (Some f)
    with "2.prems" have np: "\<not> isPrincipalResolver (f p)" by (simp add: slices_plain_def)
    have other: "find (\<lambda>c. Resolver c \<noteq> None \<and> t \<in> set (Types c)) cs = None" if "t \<in> set (Types c)" for t
      using that "2.prems"(2) by (fastforce simp: find_None_iff)
    from "2.hyps"(3) [OF Some refl np plain] Some np other show ?thesis
      by (auto simp: map_of_fold_aput split: option.splits)
  qed
qed

definition engine_getter :: "principal \<Rightarrow> 'w contribution list \<Rightarrow> 'w getter" where
  "engine_getter p cs = newGetter p (principalContribution # cs)"

lemma engine_getter_routes:
  assumes "slices_plain p cs" and "distinct (concat (map Types cs))"
  shows "map_of (byType (engine_getter p cs)) t =
     (let slice = (case find (\<lambda>c. Resolver c \<noteq> None \<and> t \<in> set (Types c)) cs of
                     None \<Rightarrow> None | Some c \<Rightarrow> Some ((the (Resolver c)) p))
      in if t = uid_Type (UID p)
         then (case slice of None \<Rightarrow> Some (PrincipalResolver p) | Some r \<Rightarrow> Some (PrincipalFirst (PrincipalResolver p) r))
         else slice)"
    and "cache (engine_getter p cs) = [] \<and> firstErr (engine_getter p cs) = None"
proof -
  obtain routes pr where rc: "route_contributions p cs ([], Some (PrincipalResolver p)) = (routes, pr)" by fastforce
  note plain = route_contributions_plain [OF assms, of "[]" "Some (PrincipalResolver p)", unfolded rc]
  have start: "route_contributions p (principalContribution # cs) ([], None) = (routes, Some (PrincipalResolver p))"
    using rc plain by (simp add: principalContribution_def)
  show "map_of (byType (engine_getter p cs)) t =
     (let slice = (case find (\<lambda>c. Resolver c \<noteq> None \<and> t \<in> set (Types c)) cs of
                     None \<Rightarrow> None | Some c \<Rightarrow> Some ((the (Resolver c)) p))
      in if t = uid_Type (UID p)
         then (case slice of None \<Rightarrow> Some (PrincipalResolver p) | Some r \<Rightarrow> Some (PrincipalFirst (PrincipalResolver p) r))
         else slice)"
    using plain start
    by (auto simp: engine_getter_def newGetter_def routePrincipal_def Let_def split: option.splits)
  show "cache (engine_getter p cs) = [] \<and> firstErr (engine_getter p cs) = None"
    using start by (auto simp: engine_getter_def newGetter_def routePrincipal_def Let_def split: option.splits)
qed

lemma newGetter_fresh [simp]: "cache (newGetter p cs) = []" "firstErr (newGetter p cs) = None"
  by (simp_all add: newGetter_def routePrincipal_def Let_def split: prod.splits option.splits)

lemma Resolve_PrincipalFirst_self [simp]:
  "Resolve (PrincipalFirst (PrincipalResolver p) r) uid w =
     (if uid = UID p then ((principal_entity p, True), [], w) else Resolve r uid w)"
  by (simp add: principalResolve_def split: prod.splits)

lemma find_owner:
  assumes "distinct (concat (map Types cs))" and "c \<in> set cs" and "t \<in> set (Types c)" and "Resolver c \<noteq> None"
  shows "find (\<lambda>c. Resolver c \<noteq> None \<and> t \<in> set (Types c)) cs = Some c"
  using assms by (induction cs) auto

section \<open>Properties\<close>

text \<open>
  C12. One request decides on one snapshot: whatever questions the policy engine asks and however the
  stores change under it, every entity is loaded at most once, the decision is the one the policies
  give on a single consistent assignment of entities (the request's cache), and the error the
  middleware sees afterwards is exactly the first load failure any resolver reported, if any did.
\<close>

theorem evaluation_is_a_snapshot:
  assumes "run_eval tree (newGetter p cs) w = (d, g', w')"
  shows "distinct (map fst (load_trace tree (newGetter p cs) w))
     \<and> (\<forall>f. (\<forall>u a. map_of (cache g') u = Some a \<longrightarrow> f u = a) \<longrightarrow> d = pure_eval tree f)
     \<and> Err g' = (case concat (map snd (load_trace tree (newGetter p cs) w)) of [] \<Rightarrow> None | e # _ \<Rightarrow> Some e)"
  using run_eval_spec [OF assms] load_trace_once [OF assms] load_trace_errors [OF assms]
  by (simp add: Err_def)

text \<open>A slice whose store counts the loads and fails on the second one.\<close>

definition counting_slice :: "nat contribution" where
  "counting_slice = \<lparr>Policies = [], Actions = [], Types = [''Todo''],
     Resolver = Some (\<lambda>p. SliceResolver [''Todo'']
       (\<lambda>uid n. ((zero_entity, False), if n = 0 then [] else [ErrorString ''down''], Suc n)))\<rparr>"

theorem evaluation_is_a_snapshot_witness:
  "let t = (\<lambda>i. NewEntityUID ''Todo'' i);
       tree = Ask (t ''a'') (\<lambda>x. Ask (t ''a'') (\<lambda>y. Ask (t ''b'') (\<lambda>z. Decide (x = y \<and> snd z))))
   in \<exists>d g'. run_eval tree (newGetter Anonymous [counting_slice]) 0 = (d, g', 2)
        \<and> map fst (load_trace tree (newGetter Anonymous [counting_slice]) 0) = [t ''a'', t ''b'']
        \<and> d = pure_eval tree (\<lambda>u. (zero_entity, False)) \<and> Err g' = Some (ErrorString ''down'')"
proof -
  let ?t = "\<lambda>i. NewEntityUID ''Todo'' i"
  let ?tree = "Ask (?t ''a'') (\<lambda>x. Ask (?t ''a'') (\<lambda>y. Ask (?t ''b'') (\<lambda>z. Decide (x = y \<and> snd z))))"
  let ?g = "newGetter Anonymous [counting_slice]"
  obtain d g' w' where R: "run_eval ?tree ?g 0 = (d, g', w')" by (metis prod_cases3)
  have trace: "load_trace ?tree ?g 0 = [(?t ''a'', []), (?t ''b'', [ErrorString ''down''])]" and w': "w' = 2"
    and c: "\<forall>u a. map_of (cache g') u = Some a \<longrightarrow> (zero_entity, False) = a"
    using R by (auto simp: newGetter_def counting_slice_def Get_def go_defs Let_def RecordLoadError_def setErr_def split: if_splits)
  have "\<forall>f. (\<forall>u a. map_of (cache g') u = Some a \<longrightarrow> f u = a) \<longrightarrow> d = pure_eval ?tree f"
    using evaluation_is_a_snapshot [OF R] by (rule conjunct1 [OF conjunct2])
  from this [rule_format, of "\<lambda>u. (zero_entity, False)"] c
  have "d = pure_eval ?tree (\<lambda>u. (zero_entity, False))" by blast
  moreover have "Err g' = Some (ErrorString ''down'')"
    using conjunct2 [OF conjunct2 [OF evaluation_is_a_snapshot [OF R]]] unfolding trace by simp
  ultimately show ?thesis using R w' unfolding Let_def trace by auto
qed

text \<open>
  C13. Routing: with contributions the engine accepts, the caller's own entity is always the one built
  from its claims, whatever a slice registers under its type (even a slice owning that very type); any
  other entity of a type a slice declares is resolved by that slice; and a type nobody owns is a miss
  and not an error.
\<close>

theorem engine_getter_routing:
  assumes "types_ok cs" and "slices_plain p cs"
  shows "(\<exists>g'. Get (UID p) (engine_getter p cs) w = ((principal_entity p, True), g', w) \<and> Err g' = None)
     \<and> (\<forall>c f uid found errs w'. c \<in> set cs \<and> Resolver c = Some f \<and> uid_Type uid \<in> set (Types c) \<and> uid \<noteq> UID p
            \<and> Resolve (f p) uid w = (found, errs, w') \<longrightarrow>
          (\<exists>g'. Get uid (engine_getter p cs) w = (found, g', w')
             \<and> Err g' = (case errs of [] \<Rightarrow> None | e # _ \<Rightarrow> Some e)))
     \<and> (\<forall>uid. uid_Type uid \<noteq> uid_Type (UID p)
            \<and> (\<forall>c \<in> set cs. Resolver c \<noteq> None \<longrightarrow> uid_Type uid \<notin> set (Types c)) \<longrightarrow>
          (\<exists>g'. Get uid (engine_getter p cs) w = ((zero_entity, False), g', w) \<and> Err g' = None))"
proof (intro conjI allI impI)
  have d: "distinct (concat (map Types cs))" using assms(1) by (simp add: types_ok_def)
  note routes = engine_getter_routes(1) [OF assms(2) d] and fresh = engine_getter_routes(2) [OF assms(2) d]
  show "\<exists>g'. Get (UID p) (engine_getter p cs) w = ((principal_entity p, True), g', w) \<and> Err g' = None"
    using fresh by (auto simp: Get_def routes Let_def Err_def principalResolve_def split: option.splits)
  fix c f uid found errs w'
  assume own: "c \<in> set cs \<and> Resolver c = Some f \<and> uid_Type uid \<in> set (Types c) \<and> uid \<noteq> UID p
            \<and> Resolve (f p) uid w = (found, errs, w')"
  then show "\<exists>g'. Get uid (engine_getter p cs) w = (found, g', w')
             \<and> Err g' = (case errs of [] \<Rightarrow> None | e # _ \<Rightarrow> Some e)"
    using find_owner [OF d, of c "uid_Type uid"] fresh
    by (auto simp: Get_def routes Let_def Err_def simp del: Resolve.simps(3))
next
  have d: "distinct (concat (map Types cs))" using assms(1) by (simp add: types_ok_def)
  note routes = engine_getter_routes(1) [OF assms(2) d] and fresh = engine_getter_routes(2) [OF assms(2) d]
  fix uid :: entity_uid
  assume free: "uid_Type uid \<noteq> uid_Type (UID p) \<and> (\<forall>c \<in> set cs. Resolver c \<noteq> None \<longrightarrow> uid_Type uid \<notin> set (Types c))"
  then have "find (\<lambda>c. Resolver c \<noteq> None \<and> uid_Type uid \<in> set (Types c)) cs = None" by (auto simp: find_None_iff)
  with free fresh show "\<exists>g'. Get uid (engine_getter p cs) w = ((zero_entity, False), g', w) \<and> Err g' = None"
    by (auto simp: Get_def routes Let_def Err_def)
qed

theorem engine_getter_routing_witness:
  "let p = \<lparr>UID = NewEntityUID ''Todo'' ''me'', Claims = []\<rparr>; g = engine_getter p [counting_slice]
   in (\<exists>g'. Get (UID p) g 1 = ((principal_entity p, True), g', 1) \<and> Err g' = None)
    \<and> (\<exists>g'. Get (NewEntityUID ''Todo'' ''x'') g 1 = ((zero_entity, False), g', 2) \<and> Err g' = Some (ErrorString ''down''))
    \<and> (\<exists>g'. Get (NewEntityUID ''Role'' ''admin'') g 1 = ((zero_entity, False), g', 1) \<and> Err g' = None)"
proof -
  let ?p = "\<lparr>UID = NewEntityUID ''Todo'' ''me'', Claims = []\<rparr>"
  have ok: "types_ok [counting_slice]" "slices_plain ?p [counting_slice]"
    by (simp_all add: types_ok_def slices_plain_def counting_slice_def reservedTypes_def go_defs)
  let ?x = "NewEntityUID ''Todo'' ''x''" and ?r = "NewEntityUID ''Role'' ''admin''"
  let ?f = "the (Resolver counting_slice)"
  have own: "counting_slice \<in> set [counting_slice] \<and> Resolver counting_slice = Some ?f
      \<and> uid_Type ?x \<in> set (Types counting_slice) \<and> ?x \<noteq> UID ?p
      \<and> Resolve (?f ?p) ?x 1 = ((zero_entity, False), [ErrorString ''down''], 2)"
    and free: "uid_Type ?r \<noteq> uid_Type (UID ?p)
      \<and> (\<forall>c \<in> set [counting_slice]. Resolver c \<noteq> None \<longrightarrow> uid_Type ?r \<notin> set (Types c))"
    by (simp_all add: counting_slice_def go_defs)
  note routing = engine_getter_routing [OF ok, of 1]
  have "\<exists>g'. Get ?x (engine_getter ?p [counting_slice]) 1 = ((zero_entity, False), g', 2)
      \<and> Err g' = (case [ErrorString ''down''] of [] \<Rightarrow> None | e # _ \<Rightarrow> Some e)"
    using routing own by blast
  moreover have "\<exists>g'. Get ?r (engine_getter ?p [counting_slice]) 1 = ((zero_entity, False), g', 1) \<and> Err g' = None"
    using routing free by blast
  ultimately show ?thesis using routing unfolding Let_def by simp
qed

end
