(* ===== verification/AuthzMiddleware.thy ===== *)
theory AuthzMiddleware
  imports AuthzGetter
begin

text \<open>
  The authentication and authorization middleware of \<open>internal/authz/middleware.go\<close>, with
  \<open>Authorizer.Authorize\<close> of \<open>authz.go\<close> and the \<open>Authenticator\<close> interface of \<open>authn.go\<close>.

  A Huma middleware receives the request context and the rest of the chain; it answers itself or
  calls the rest.  A handler is therefore a function from the context and the world to a reply and
  the world afterwards, and a middleware transforms handlers.  \<open>cedar.Authorize\<close> is a parameter: from
  the policies and a request to the questions it asks and the decision (\<open>eval_tree\<close>).  Log lines are
  not modelled; the reads they make of a nil operation are, since they panic.
\<close>

section \<open>Requests and replies\<close>

record huma_ctx =
  hctx_headers :: "(string \<times> string) list"
  hctx_params :: "(string \<times> string) list"
  hctx_Operation :: "operation option"
  hctx_Context :: request_ctx

definition hctx_Header :: "huma_ctx \<Rightarrow> string \<Rightarrow> string" where
  "hctx_Header ctx name = (case map_of (hctx_headers ctx) name of None \<Rightarrow> [] | Some v \<Rightarrow> v)"

definition hctx_Param :: "huma_ctx \<Rightarrow> string \<Rightarrow> string" where
  "hctx_Param ctx name = (case map_of (hctx_params ctx) name of None \<Rightarrow> [] | Some v \<Rightarrow> v)"

datatype 'r reply = Response 'r | Problem nat string "(string \<times> string) list" | Panicked

type_synonym ('w, 'r) handler = "huma_ctx \<Rightarrow> 'w \<Rightarrow> 'r reply \<times> 'w"
type_synonym ('w, 'r) middleware = "huma_ctx \<Rightarrow> ('w, 'r) handler \<Rightarrow> 'w \<Rightarrow> 'r reply \<times> 'w"
type_synonym 'w authenticate_fn = "huma_ctx \<Rightarrow> 'w \<Rightarrow> principal result \<times> 'w"

fun run_chain :: "('w, 'r) middleware list \<Rightarrow> ('w, 'r) handler \<Rightarrow> ('w, 'r) handler" where
  "run_chain [] h ctx w = h ctx w"
| "run_chain (m # ms) h ctx w = m ctx (run_chain ms h) w"

datatype cedar_decision = Allow | Deny

record cedar_request =
  req_Principal :: entity_uid
  req_Action :: entity_uid
  req_Resource :: entity_uid
  req_Context :: cedar_record

text \<open>The decision, with the reasons of the diagnostics: the ids of the policies that determined it.\<close>

type_synonym authorization = "cedar_decision \<times> string list"
type_synonym 'p cedar_engine = "(string \<times> 'p) list \<Rightarrow> cedar_request \<Rightarrow> authorization eval_tree"

section \<open>The middleware\<close>

definition genericForbidden :: string where
  "genericForbidden = ''you are not authorized to perform this action''"

definition genericUnauthorized :: string where
  "genericUnauthorized = ''authentication is required to perform this action''"

definition authzUnavailable :: string where
  "authzUnavailable = ''authorization is temporarily unavailable''"

record ('w, 'p) authz_mw =
  mw_authenticator :: "'w authenticate_fn"
  mw_authorizer :: "('w, 'p) authorizer"
  mw_logger :: "'w log_sink"
  mw_enabled :: bool

text \<open>The source replaces a nil logger by \<open>slog.Default\<close>; the argument here is the logger after that.\<close>

definition NewMiddleware :: "'w authenticate_fn \<Rightarrow> ('w, 'p) authorizer \<Rightarrow> 'w log_sink \<Rightarrow> bool \<Rightarrow> ('w, 'p) authz_mw" where
  "NewMiddleware authenticator az lg enabled =
     \<lparr>mw_authenticator = authenticator, mw_authorizer = az, mw_logger = lg, mw_enabled = enabled\<rparr>"

definition Authorize :: "'p cedar_engine \<Rightarrow> ('w, 'p) authorizer \<Rightarrow> 'w getter \<Rightarrow> cedar_request \<Rightarrow> 'w
    \<Rightarrow> authorization \<times> 'w getter \<times> 'w" where
  "Authorize cedar a g req w = run_eval (cedar (policies a) req) g w"

definition Contributions :: "('w, 'p) authorizer \<Rightarrow> 'w contribution list" where
  "Contributions a = contributions a"

definition writeErr :: "nat \<Rightarrow> string \<Rightarrow> 'r reply" where
  "writeErr status detail = Problem status detail []"

text \<open>\<open>outcome\<close> is an int in the source: any value can be switched on, and the zero value is the error.\<close>

type_synonym outcome = int

definition decisionError :: outcome where [go_defs]: "decisionError = 0"
definition decisionAllow :: outcome where [go_defs]: "decisionAllow = 1"
definition decisionDeny :: outcome where [go_defs]: "decisionDeny = 2"

definition mw_principal :: "huma_ctx \<Rightarrow> principal" where
  "mw_principal ctx = (case PrincipalFrom (hctx_Context ctx) of Some p \<Rightarrow> p | None \<Rightarrow> Anonymous)"

definition resourceFor :: "authz_decl \<Rightarrow> huma_ctx \<Rightarrow> entity_uid" where
  "resourceFor decl ctx =
     (let resourceType = resourceTypeFromAction (decl_action decl) in
      if decl_idParam decl = [] then resourceType
      else let i = hctx_Param ctx (decl_idParam decl)
           in if i = [] then resourceType else NewEntityUID (uid_Type resourceType) i)"

definition cedar_request_for :: "huma_ctx \<Rightarrow> principal \<Rightarrow> authz_decl \<Rightarrow> cedar_request" where
  "cedar_request_for ctx p decl =
     \<lparr>req_Principal = UID p, req_Action = decl_action decl, req_Resource = resourceFor decl ctx,
      req_Context = Claims p\<rparr>"

text \<open>
  The lines the middleware logs.  They go to the logger it was built with, never to the one of the
  request.  \<open>evaluate\<close> is only called for an operation with a declaration, so \<open>ctx.Operation()\<close> is not nil.
\<close>

definition operation_id :: "huma_ctx \<Rightarrow> string" where
  "operation_id ctx = (case hctx_Operation ctx of None \<Rightarrow> [] | Some oper \<Rightarrow> OperationID oper)"

definition log_rejected :: "('w, 'p) authz_mw \<Rightarrow> go_error \<Rightarrow> 'w \<Rightarrow> 'w" where
  "log_rejected m e = mw_logger m LevelWarn ''authentication failed'' [(''error'', LError e)]"

definition log_undeclared :: "('w, 'p) authz_mw \<Rightarrow> huma_ctx \<Rightarrow> 'w \<Rightarrow> 'w" where
  "log_undeclared m ctx = mw_logger m LevelWarn ''denying undeclared operation'' [(''operation'', LString (operation_id ctx))]"

definition log_load_failed :: "('w, 'p) authz_mw \<Rightarrow> huma_ctx \<Rightarrow> go_error \<Rightarrow> 'w \<Rightarrow> 'w" where
  "log_load_failed m ctx e = mw_logger m LevelError ''authorization entity load failed''
     [(''operation'', LString (operation_id ctx)), (''error'', LError e)]"

definition log_denied :: "('w, 'p) authz_mw \<Rightarrow> huma_ctx \<Rightarrow> principal \<Rightarrow> entity_uid \<Rightarrow> string list \<Rightarrow> 'w \<Rightarrow> 'w" where
  "log_denied m ctx p action reasons = mw_logger m LevelInfo ''authorization denied''
     [(''operation'', LString (operation_id ctx)), (''principal'', LUID (UID p)),
      (''action'', LUID action), (''reasons'', LReasons reasons)]"

definition evaluate :: "'p cedar_engine \<Rightarrow> ('w, 'p) authz_mw \<Rightarrow> huma_ctx \<Rightarrow> principal \<Rightarrow> authz_decl \<Rightarrow> 'w
    \<Rightarrow> outcome \<times> 'w" where
  "evaluate cedar m ctx p decl w =
     (let g = newGetter p (Contributions (mw_authorizer m)) in
      case Authorize cedar (mw_authorizer m) g (cedar_request_for ctx p decl) w of
        ((decision, reasons), g', w') \<Rightarrow>
          (case Err g' of
             Some e \<Rightarrow> (decisionError, log_load_failed m ctx e w')
           | None \<Rightarrow>
               (if decision = Allow then (decisionAllow, w')
                else (decisionDeny, log_denied m ctx p (decl_action decl) reasons w'))))"

definition deny :: "principal \<Rightarrow> 'r reply" where
  "deny p = (if IsAnonymous p then writeErr 401 genericUnauthorized else writeErr 403 genericForbidden)"

definition act_on :: "outcome \<Rightarrow> principal \<Rightarrow> huma_ctx \<Rightarrow> ('w, 'r) handler \<Rightarrow> 'w \<Rightarrow> 'r reply \<times> 'w" where
  "act_on allowed p ctx nxt w =
     (if allowed = decisionAllow then nxt ctx w
      else if allowed = decisionDeny then (deny p, w)
      else if allowed = decisionError then (writeErr 500 authzUnavailable, w)
      else (writeErr 500 authzUnavailable, w))"

definition authenticate :: "('w, 'p) authz_mw \<Rightarrow> ('w, 'r) middleware" where
  "authenticate m ctx nxt w =
     (case mw_authenticator m ctx w of
        (Inl e, w') \<Rightarrow> (writeErr 401 genericUnauthorized, log_rejected m e w')
      | (Inr p, w') \<Rightarrow> nxt (ctx\<lparr>hctx_Context := WithPrincipal (hctx_Context ctx) p\<rparr>) w')"

definition authorize :: "'p cedar_engine \<Rightarrow> ('w, 'p) authz_mw \<Rightarrow> ('w, 'r) middleware" where
  "authorize cedar m ctx nxt w =
     (let p = mw_principal ctx in
      case declarationFrom (hctx_Operation ctx) of
        None \<Rightarrow> (case hctx_Operation ctx of
                  None \<Rightarrow> (Panicked, w)
                | Some oper \<Rightarrow> (writeErr 403 genericForbidden, log_undeclared m ctx w))
      | Some decl \<Rightarrow>
          (if decl_kind decl = KindPublic then nxt ctx w
           else case evaluate cedar m ctx p decl w of (allowed, w') \<Rightarrow> act_on allowed p ctx nxt w'))"

definition Install :: "'p cedar_engine \<Rightarrow> ('w, 'p) authz_mw \<Rightarrow> ('w, 'r) middleware list \<Rightarrow> ('w, 'r) middleware list" where
  "Install cedar m stack = (if \<not> mw_enabled m then stack else stack @ [authenticate m, authorize cedar m])"

definition Finalize :: "('w, 'p) authz_mw \<Rightarrow> openapi_doc \<Rightarrow> openapi_doc" where
  "Finalize m doc = (if \<not> mw_enabled m then doc else DocumentSecurity doc)"

section \<open>Lemmas\<close>

lemma run_chain_Nil [simp]: "run_chain [] h = h"
  by (auto intro!: ext)

lemma run_chain_append: "run_chain (ms @ ms') h = run_chain ms (run_chain ms' h)"
  by (induction ms) (auto intro!: ext)

lemma mw_principal_WithPrincipal [simp]:
  "mw_principal (ctx\<lparr>hctx_Context := WithPrincipal c p\<rparr>) = p"
  by (simp add: mw_principal_def WithPrincipal_def PrincipalFrom_def)

text \<open>
  What a decision rests on: the evaluation of the policies on one assignment of entities, with
  every load having succeeded.
\<close>

definition permitted :: "'p cedar_engine \<Rightarrow> ('w, 'p) authorizer \<Rightarrow> principal \<Rightarrow> cedar_request \<Rightarrow> 'w \<Rightarrow> bool" where
  "permitted cedar a p req w \<longleftrightarrow>
     (let tree = cedar (policies a) req; g = newGetter p (contributions a) in
      fst (fst (run_eval tree g w)) = Allow \<and> (\<forall>l \<in> set (load_trace tree g w). snd l = []))"

definition load_failed :: "'p cedar_engine \<Rightarrow> ('w, 'p) authorizer \<Rightarrow> principal \<Rightarrow> cedar_request \<Rightarrow> 'w \<Rightarrow> bool" where
  "load_failed cedar a p req w \<longleftrightarrow>
     (\<exists>l \<in> set (load_trace (cedar (policies a) req) (newGetter p (contributions a)) w). snd l \<noteq> [])"

definition world_after :: "'p cedar_engine \<Rightarrow> ('w, 'p) authorizer \<Rightarrow> principal \<Rightarrow> cedar_request \<Rightarrow> 'w \<Rightarrow> 'w" where
  "world_after cedar a p req w = snd (snd (run_eval (cedar (policies a) req) (newGetter p (contributions a)) w))"

text \<open>The first error of the loads, and the reasons of the decision.\<close>

definition load_error :: "'p cedar_engine \<Rightarrow> ('w, 'p) authorizer \<Rightarrow> principal \<Rightarrow> cedar_request \<Rightarrow> 'w \<Rightarrow> go_error" where
  "load_error cedar a p req w =
     hd (concat (map snd (load_trace (cedar (policies a) req) (newGetter p (contributions a)) w)))"

definition reasons_for :: "'p cedar_engine \<Rightarrow> ('w, 'p) authorizer \<Rightarrow> principal \<Rightarrow> cedar_request \<Rightarrow> 'w \<Rightarrow> string list" where
  "reasons_for cedar a p req w = snd (fst (run_eval (cedar (policies a) req) (newGetter p (contributions a)) w))"

lemma concat_eq_Nil_iff: "concat (map snd ls) = [] \<longleftrightarrow> (\<forall>l \<in> set ls. snd l = [])"
  by auto

lemma first_None_iff: "(case xs of [] \<Rightarrow> None | e # _ \<Rightarrow> Some e) = None \<longleftrightarrow> xs = []"
  by (cases xs) simp_all

lemma first_Some_iff: "(case xs of [] \<Rightarrow> None | e # _ \<Rightarrow> Some e) = Some e \<Longrightarrow> hd xs = e"
  by (cases xs) simp_all

lemma evaluate_outcome:
  assumes "req = cedar_request_for ctx p decl" and "a = mw_authorizer m"
  shows "evaluate cedar m ctx p decl w =
     (let w' = world_after cedar a p req w in
      if load_failed cedar a p req w then (decisionError, log_load_failed m ctx (load_error cedar a p req w) w')
      else if permitted cedar a p req w then (decisionAllow, w')
      else (decisionDeny, log_denied m ctx p (decl_action decl) (reasons_for cedar a p req w) w'))"
proof -
  let ?tree = "cedar (policies a) req" and ?g = "newGetter p (contributions a)"
  let ?errs = "concat (map snd (load_trace ?tree ?g w))"
  obtain d rs g' w' where R: "run_eval ?tree ?g w = ((d, rs), g', w')" by (metis prod.exhaust)
  have err: "Err g' = (case ?errs of [] \<Rightarrow> None | e # _ \<Rightarrow> Some e)"
    unfolding Err_def load_trace_errors [OF R] newGetter_fresh option.case ..
  have none: "Err g' = None \<longleftrightarrow> (\<forall>l \<in> set (load_trace ?tree ?g w). snd l = [])"
    unfolding err first_None_iff concat_eq_Nil_iff ..
  have some: "load_error cedar a p req w = e" if "Err g' = Some e" for e
    using that unfolding err load_error_def by (rule first_Some_iff)
  show ?thesis
    unfolding evaluate_def Authorize_def Contributions_def load_failed_def permitted_def world_after_def reasons_for_def
      assms(1) [symmetric] assms(2) [symmetric] Let_def R
    using none some by (cases "Err g'") auto
qed

lemma authorize_outcome:
  assumes "declarationFrom (hctx_Operation ctx) = Some decl" and "decl_kind decl = KindRequire"
    and "p = mw_principal ctx" and "req = cedar_request_for ctx p decl" and "a = mw_authorizer m"
  shows "authorize cedar m ctx nxt w =
     (let w' = world_after cedar a p req w in
      if load_failed cedar a p req w then (Problem 500 authzUnavailable [], log_load_failed m ctx (load_error cedar a p req w) w')
      else if permitted cedar a p req w then nxt ctx w'
      else (deny p, log_denied m ctx p (decl_action decl) (reasons_for cedar a p req w) w'))"
  unfolding authorize_def assms(3) [symmetric] Let_def [of p] assms(1) option.case evaluate_outcome [OF assms(4,5)]
  by (simp add: assms(2) act_on_def go_defs writeErr_def Let_def)

definition reaches :: "(('w, 'r) handler \<Rightarrow> ('w, 'r) handler) \<Rightarrow> huma_ctx \<Rightarrow> 'w \<Rightarrow> huma_ctx \<Rightarrow> 'w \<Rightarrow> bool" where
  "reaches chain ctx w ctx' w' \<longleftrightarrow> (\<forall>h. chain h ctx w = h ctx' w')"

definition answered :: "(('w, 'r) handler \<Rightarrow> ('w, 'r) handler) \<Rightarrow> huma_ctx \<Rightarrow> 'w \<Rightarrow> nat \<Rightarrow> string \<Rightarrow> bool" where
  "answered chain ctx w status detail \<longleftrightarrow> (\<exists>w'. \<forall>h. chain h ctx w = (Problem status detail [], w'))"

text \<open>Answered, whatever the handler is, and leaving the world \<open>w'\<close>.\<close>

definition refused :: "(('w, 'r) handler \<Rightarrow> ('w, 'r) handler) \<Rightarrow> huma_ctx \<Rightarrow> 'w \<Rightarrow> nat \<Rightarrow> string \<Rightarrow> 'w \<Rightarrow> bool" where
  "refused chain ctx w status detail w' \<longleftrightarrow> (\<forall>h. chain h ctx w = (Problem status detail [], w'))"

lemma reaches_self: "(\<forall>h :: ('w, 'r) handler. h ctx w = h ctx' w') \<longleftrightarrow> ctx' = ctx \<and> w' = w"
proof
  assume eq: "\<forall>h :: ('w, 'r) handler. h ctx w = h ctx' w'"
  let ?h = "\<lambda>c v. (if c = ctx \<and> v = w then Panicked else Problem 0 [] [], v) :: 'r reply \<times> 'w"
  from eq have "?h ctx w = ?h ctx' w'" by (rule spec)
  then show "ctx' = ctx \<and> w' = w" by (auto split: if_splits)
qed simp

lemma reaches_next:
  "(\<And>h. chain h ctx w = h c1 w1) \<Longrightarrow> reaches chain ctx w c2 w2 \<longleftrightarrow> c2 = c1 \<and> w2 = w1"
  unfolding reaches_def by (simp add: reaches_self)

lemma answered_not_reaches:
  "(\<And>h. chain h ctx w = (Problem s d [], v)) \<Longrightarrow> \<not> reaches chain ctx w c2 w2"
  unfolding reaches_def by (auto intro!: exI [of _ "\<lambda>_ w. (Panicked, w)"])

lemma cedar_request_for_Context [simp]:
  "cedar_request_for (ctx\<lparr>hctx_Context := c\<rparr>) p decl = cedar_request_for ctx p decl"
  by (simp add: cedar_request_for_def resourceFor_def hctx_Param_def Let_def)

text \<open>The enabled chain, branch by branch.\<close>

lemma log_Context [simp]:
  "log_undeclared m (ctx\<lparr>hctx_Context := c\<rparr>) = log_undeclared m ctx"
  "log_load_failed m (ctx\<lparr>hctx_Context := c\<rparr>) e = log_load_failed m ctx e"
  "log_denied m (ctx\<lparr>hctx_Context := c\<rparr>) p action rs = log_denied m ctx p action rs"
  by (simp_all add: log_undeclared_def log_load_failed_def log_denied_def operation_id_def)

lemma chain_answer:
  assumes "mw_enabled m" and "hctx_Operation ctx = Some oper"
    and "mw_authenticator m ctx w = (auth, w1)"
  shows "run_chain (Install cedar m []) h ctx w =
     (case auth of
        Inl e \<Rightarrow> (Problem 401 genericUnauthorized [], log_rejected m e w1)
      | Inr p \<Rightarrow>
          (let ctx' = ctx\<lparr>hctx_Context := WithPrincipal (hctx_Context ctx) p\<rparr>; a = mw_authorizer m in
           case declarationFrom (Some oper) of
             None \<Rightarrow> (Problem 403 genericForbidden [], log_undeclared m ctx w1)
           | Some decl \<Rightarrow>
               (let req = cedar_request_for ctx p decl; w2 = world_after cedar a p req w1 in
                if decl_kind decl = KindPublic then h ctx' w1
                else if load_failed cedar a p req w1
                  then (Problem 500 authzUnavailable [], log_load_failed m ctx (load_error cedar a p req w1) w2)
                else if permitted cedar a p req w1 then h ctx' w2
                else (deny p, log_denied m ctx p (decl_action decl) (reasons_for cedar a p req w1) w2))))"
proof (cases auth)
  case (Inl e)
  with assms show ?thesis by (simp add: Install_def authenticate_def writeErr_def)
next
  case (Inr p)
  let ?ctx = "ctx\<lparr>hctx_Context := WithPrincipal (hctx_Context ctx) p\<rparr>"
  have "run_chain (Install cedar m []) h ctx w = authorize cedar m ?ctx h w1"
    using Inr assms by (simp add: Install_def authenticate_def)
  moreover have "authorize cedar m ?ctx h w1 = (Problem 403 genericForbidden [], log_undeclared m ctx w1)" if "declarationFrom (Some oper) = None"
    using that assms(2) by (simp add: authorize_def writeErr_def)
  moreover have "authorize cedar m ?ctx h w1 = h ?ctx w1"
    if "declarationFrom (Some oper) = Some decl" "decl_kind decl = KindPublic" for decl
    using that assms(2) by (simp add: authorize_def)
  moreover have "authorize cedar m ?ctx h w1 =
     (let req = cedar_request_for ctx p decl; a = mw_authorizer m; w2 = world_after cedar a p req w1 in
      if load_failed cedar a p req w1 then (Problem 500 authzUnavailable [], log_load_failed m ctx (load_error cedar a p req w1) w2)
      else if permitted cedar a p req w1 then h ?ctx w2
      else (deny p, log_denied m ctx p (decl_action decl) (reasons_for cedar a p req w1) w2))"
    if "declarationFrom (Some oper) = Some decl" "decl_kind decl \<noteq> KindPublic" for decl
  proof -
    from that(2) have "decl_kind decl = KindRequire" by (cases "decl_kind decl") simp_all
    from authorize_outcome [where ctx = ?ctx and p = p and m = m and cedar = cedar and nxt = h and w = w1, OF _ this _ refl refl] that(1) assms(2) show ?thesis
      by (simp add: Let_def)
  qed
  ultimately show ?thesis unfolding Inr by (cases "declarationFrom (Some oper)") (simp_all add: Let_def)
qed

text \<open>A concrete engine that allows administrators, over no slices, and a logger that counts its lines, for the examples below.\<close>

definition admin_engine :: "unit cedar_engine" where
  "admin_engine ps req =
     Ask (req_Principal req)
       (\<lambda>(e, ok). Decide (if NewEntityUID RoleType ''admin'' \<in> set (ent_Parents e) then Allow else Deny, []))"

definition admin_principal :: principal where
  "admin_principal = \<lparr>UID = NewEntityUID PrincipalType ''root'', Claims = [(RolesClaim, VSet [VString ''admin''])]\<rparr>"

definition admin_mw :: "principal result \<Rightarrow> (nat, unit) authz_mw" where
  "admin_mw auth = NewMiddleware (\<lambda>ctx w. (auth, w)) \<lparr>policies = [], contributions = [principalContribution]\<rparr> (\<lambda>level msg attrs w. Suc w) True"

definition admin_op :: operation where
  "admin_op = \<lparr>OperationID = ''op'', op_Method = ''GET'', op_Path = ''/x'', DefaultStatus = 200, op_Errors = [],
     Metadata = Some (Require (NewEntityUID ''Action'' ''todo:list'') []), Security = []\<rparr>"

definition admin_ctx :: huma_ctx where
  "admin_ctx = \<lparr>hctx_headers = [], hctx_params = [], hctx_Operation = Some admin_op,
     hctx_Context = \<lparr>ctx_principal = None, ctx_deadline = None, ctx_clientIP = [], ctx_reqID = [], ctx_logger = None\<rparr>\<rparr>"

lemma admin_mw_decl: "declarationFrom (Some admin_op) =
   Some \<lparr>decl_kind = KindRequire, decl_action = NewEntityUID ''Action'' ''todo:list'', decl_idParam = []\<rparr>"
  by (simp add: admin_op_def)

lemmas admin_defs = admin_engine_def admin_principal_def admin_mw_def admin_ctx_def NewMiddleware_def
  permitted_def load_failed_def cedar_request_for_def newGetter_def principalContribution_def routePrincipal_def
  Get_def principalResolve_def principal_entity_def roleParents_def Anonymous_def Let_def

section \<open>Properties\<close>

text \<open>
  C8. Complete mediation: with authorization enabled, a request to an operation reaches the handler
  exactly when its credentials authenticate and the operation is declared public, or is declared with
  \<open>Require\<close>, every entity load succeeds and the policies allow the request; the handler's context
  then carries the authenticated principal.  Every other request is answered with 401, 403 or 500,
  whatever the handler is.
\<close>

theorem middleware_complete_mediation:
  fixes chain :: "('w, 'r) handler \<Rightarrow> ('w, 'r) handler"
  assumes "mw_enabled m" and "hctx_Operation ctx = Some oper"
    and "mw_authenticator m ctx w = (auth, w1)"
    and "chain = run_chain (Install cedar m [])"
  shows "((\<exists>ctx' w'. reaches chain ctx w ctx' w') \<longleftrightarrow>
            (\<exists>p decl. auth = Inr p \<and> declarationFrom (Some oper) = Some decl
               \<and> (decl_kind decl = KindPublic
                  \<or> permitted cedar (mw_authorizer m) p (cedar_request_for ctx p decl) w1)))
       \<and> (\<forall>ctx' w'. reaches chain ctx w ctx' w' \<longrightarrow>
            (\<exists>p. auth = Inr p \<and> PrincipalFrom (hctx_Context ctx') = Some p))
       \<and> ((\<nexists>ctx' w'. reaches chain ctx w ctx' w') \<longrightarrow>
            (\<exists>status \<in> {401, 403, 500}. \<exists>detail. answered chain ctx w status detail))"
proof -
  note run = assms(4) chain_answer [OF assms(1-3)]
  let ?a = "mw_authorizer m"
  let ?may = "\<lambda>p decl. declarationFrom (Some oper) = Some decl
     \<and> (decl_kind decl = KindPublic \<or> permitted cedar ?a p (cedar_request_for ctx p decl) w1)"
  have excl: "\<not> load_failed cedar ?a p req w1" if "permitted cedar ?a p req w1" for p req
    using that by (auto simp: permitted_def load_failed_def Let_def)
  show ?thesis
  proof (cases "\<exists>p decl. auth = Inr p \<and> ?may p decl")
    case True
    then obtain p decl where may: "auth = Inr p" "?may p decl" by blast
    then have "\<exists>v. \<forall>h. chain h ctx w = h (ctx\<lparr>hctx_Context := WithPrincipal (hctx_Context ctx) p\<rparr>) v"
      unfolding run using excl by (auto simp: Let_def)
    then obtain v where go: "\<And>h. chain h ctx w = h (ctx\<lparr>hctx_Context := WithPrincipal (hctx_Context ctx) p\<rparr>) v"
      by blast
    have "reaches chain ctx w c2 w2 \<longleftrightarrow> c2 = ctx\<lparr>hctx_Context := WithPrincipal (hctx_Context ctx) p\<rparr> \<and> w2 = v" for c2 w2
      using go by (rule reaches_next)
    with True may show ?thesis by (auto simp: WithPrincipal_def PrincipalFrom_def)
  next
    case False
    then have "\<exists>s d v. s \<in> {401, 403, 500} \<and> (\<forall>h. chain h ctx w = (Problem s d [], v))"
      unfolding run
      by (cases auth; cases "declarationFrom (Some oper)";
          cases "load_failed cedar ?a (projr auth) (cedar_request_for ctx (projr auth) (the (declarationFrom (Some oper)))) w1")
         (auto simp: Let_def deny_def writeErr_def)
    then obtain s d v where ans: "s \<in> {401, 403, 500}" "\<And>h. chain h ctx w = (Problem s d [], v)" by blast
    have "\<not> reaches chain ctx w c2 w2" for c2 w2 using ans(2) by (rule answered_not_reaches)
    moreover have "answered chain ctx w s d" using ans(2) by (auto simp: answered_def)
    ultimately show ?thesis using False ans(1) by blast
  qed
qed

theorem middleware_complete_mediation_witness:
  "\<exists>ctx' w'. reaches (run_chain (Install admin_engine (admin_mw (Inr admin_principal)) [] :: (nat, nat) middleware list))
     admin_ctx 5 ctx' w' \<and> PrincipalFrom (hctx_Context ctx') = Some admin_principal"
proof -
  let ?m = "admin_mw (Inr admin_principal)"
  let ?chain = "run_chain (Install admin_engine ?m [] :: (nat, nat) middleware list)"
  have hyps: "mw_enabled ?m" "hctx_Operation admin_ctx = Some admin_op"
    "mw_authenticator ?m admin_ctx 5 = (Inr admin_principal, 5)" by (simp_all add: admin_defs)
  have "permitted admin_engine (mw_authorizer ?m) admin_principal (cedar_request_for admin_ctx admin_principal
      \<lparr>decl_kind = KindRequire, decl_action = NewEntityUID ''Action'' ''todo:list'', decl_idParam = []\<rparr>) 5"
    by (simp add: admin_defs go_defs)
  with middleware_complete_mediation [OF hyps refl, of admin_engine, where ?'r = nat] admin_mw_decl show ?thesis by blast
qed

text \<open>
  C14. What a refused caller sees and what is logged: bad credentials get 401, an operation with no
  declaration 403, a failed entity load 500 (even if the policies, evaluated on the missing entity,
  said Allow), a denied anonymous caller 401 and any other denied caller 403.  Each refusal writes one
  line to the logger of the middleware, after whatever the authenticator and the entity loads did to
  the world, and changes nothing else; the line holds the error of the authenticator or of the load,
  or the operation with the principal, the action and the reasons of the decision.
\<close>

theorem middleware_refusal_status:
  fixes chain :: "('w, 'r) handler \<Rightarrow> ('w, 'r) handler"
  assumes "mw_enabled m" and "hctx_Operation ctx = Some oper"
    and "mw_authenticator m ctx w = (auth, w1)"
    and "chain = run_chain (Install cedar m [])"
  shows "(\<forall>e. auth = Inl e \<longrightarrow> refused chain ctx w 401 genericUnauthorized
            (mw_logger m LevelWarn ''authentication failed'' [(''error'', LError e)] w1))
       \<and> (\<forall>p. auth = Inr p \<and> declarationFrom (Some oper) = None \<longrightarrow> refused chain ctx w 403 genericForbidden
            (mw_logger m LevelWarn ''denying undeclared operation'' [(''operation'', LString (OperationID oper))] w1))
       \<and> (\<forall>p decl req a w2. auth = Inr p \<and> declarationFrom (Some oper) = Some decl \<and> decl_kind decl = KindRequire
              \<and> req = cedar_request_for ctx p decl \<and> a = mw_authorizer m \<and> w2 = world_after cedar a p req w1 \<longrightarrow>
            (load_failed cedar a p req w1 \<longrightarrow> refused chain ctx w 500 authzUnavailable
               (mw_logger m LevelError ''authorization entity load failed''
                  [(''operation'', LString (OperationID oper)), (''error'', LError (load_error cedar a p req w1))] w2))
            \<and> (\<not> load_failed cedar a p req w1 \<and> \<not> permitted cedar a p req w1 \<longrightarrow>
                 refused chain ctx w (if uid_Type (UID p) = AnonymousType then 401 else 403)
                   (if uid_Type (UID p) = AnonymousType then genericUnauthorized else genericForbidden)
                   (mw_logger m LevelInfo ''authorization denied''
                      [(''operation'', LString (OperationID oper)), (''principal'', LUID (UID p)),
                       (''action'', LUID (decl_action decl)), (''reasons'', LReasons (reasons_for cedar a p req w1))] w2)))"
  unfolding refused_def assms(4) chain_answer [OF assms(1-3)]
  by (auto simp: Let_def deny_def writeErr_def IsAnonymous_def assms(2)
      log_rejected_def log_undeclared_def log_load_failed_def log_denied_def operation_id_def)

theorem middleware_refusal_status_witness:
  "refused (run_chain (Install admin_engine (admin_mw (Inr Anonymous)) [] :: (nat, nat) middleware list))
     admin_ctx 5 401 genericUnauthorized 6"
proof -
  let ?m = "admin_mw (Inr Anonymous)"
  let ?d = "\<lparr>decl_kind = KindRequire, decl_action = NewEntityUID ''Action'' ''todo:list'', decl_idParam = []\<rparr>"
  let ?req = "cedar_request_for admin_ctx Anonymous ?d" and ?a = "mw_authorizer ?m"
  have hyps: "mw_enabled ?m" "hctx_Operation admin_ctx = Some admin_op"
    "mw_authenticator ?m admin_ctx 5 = (Inr Anonymous, 5)" by (simp_all add: admin_defs)
  have "\<not> load_failed admin_engine ?a Anonymous ?req 5" "\<not> permitted admin_engine ?a Anonymous ?req 5"
    "world_after admin_engine ?a Anonymous ?req 5 = 5"
    by (simp_all add: admin_defs world_after_def go_defs)
  moreover have "uid_Type (UID Anonymous) = AnonymousType" by (simp add: Anonymous_def NewEntityUID_def)
  moreover have "mw_logger ?m level msg attrs 5 = 6" for level msg attrs by (simp add: admin_mw_def NewMiddleware_def)
  ultimately show ?thesis
    using middleware_refusal_status [OF hyps refl, of admin_engine, where ?'r = nat] admin_mw_decl by simp
qed

end
