(* ===== verification/Observability.thy ===== *)
theory Observability
  imports GoHttp AuthzMiddleware
begin

text \<open>
  \<open>internal/observability\<close>: the logger and its level (\<open>logging.go\<close>), the request-scoped access log
  (\<open>requestlog.go\<close>), the HTTP metrics (\<open>metrics.go\<close>) and tracing (\<open>tracing.go\<close>).

  The route a request matched is known to chi only; it is the parameter \<open>route\<close>, the pattern its
  route context holds once the handler has returned.  Observations of the histogram keep the duration
  itself.  The OpenTelemetry SDK is the parameter \<open>otel_lib\<close>.
\<close>

section \<open>Logging (logging.go)\<close>

text \<open>
  \<open>strings.ToLower\<close> as far as a comparison with an ASCII word can see it: of the other characters only
  U+0130 and the Kelvin sign have an ASCII lower case; the rest stand for themselves.
\<close>

definition lower_char :: "char \<Rightarrow> char" where
  "lower_char c = (if 65 \<le> byte c \<and> byte c \<le> 90 then char_of (byte c + 32) else c)"

fun ToLower :: "string \<Rightarrow> string" where
  "ToLower [] = []"
| "ToLower (c # cs) =
     (if c = CHR 0xC4 \<and> take 1 cs = [CHR 0xB0] then CHR ''i'' # ToLower (drop 1 cs)
      else if c = CHR 0xE2 \<and> take 2 cs = [CHR 0x84, CHR 0xAA] then CHR ''k'' # ToLower (drop 2 cs)
      else lower_char c # ToLower cs)"

text \<open>\<open>strings.EqualFold\<close> with an ASCII word that has neither \<open>k\<close> nor \<open>s\<close>, the letters other characters fold to.\<close>

definition EqualFold :: "string \<Rightarrow> string \<Rightarrow> bool" where
  "EqualFold s t \<longleftrightarrow> map lower_char s = map lower_char t"

definition NewLogger :: "int \<Rightarrow> string \<Rightarrow> logger" where
  "NewLogger level format =
     \<lparr>lg_format = (if EqualFold format ''text'' then TextHandler else JSONHandler), lg_level = level, lg_scope = None\<rparr>"

definition ParseLevel :: "string \<Rightarrow> int" where
  "ParseLevel level =
     (let l = ToLower (TrimSpace level) in
      if l = ''debug'' then LevelDebug
      else if l = ''warn'' \<or> l = ''warning'' then LevelWarn
      else if l = ''error'' then LevelError
      else LevelInfo)"

section \<open>The access log (requestlog.go)\<close>

definition LoggerFrom :: "request_ctx \<Rightarrow> logger option" where
  "LoggerFrom ctx = From ctx"

definition access_entry :: "http_request \<Rightarrow> string \<Rightarrow> nat \<Rightarrow> nat \<Rightarrow> duration \<Rightarrow> (string \<times> log_value) list" where
  "access_entry r client_ip status bytes d =
     [(''method'', LString (r_Method r)), (''path'', LString (r_Path r)), (''client_ip'', LString client_ip),
      (''status'', LInt (int status)), (''bytes'', LInt (int bytes)), (''duration'', LDuration d)]"

text \<open>The line is written after the handler returned; a panic passes it by.\<close>

definition RequestLogger :: "logger \<Rightarrow> 'w http_middleware" where
  "RequestLogger base nxt r rs w =
     (let start = w_now w;
          logger = With_request_id (ctx_reqID (r_Context r)) base;
          ctx = WithLogger (r_Context r) logger
      in case nxt (WithContext r ctx) rs w of
           (Panicking p, rs', w') \<Rightarrow> (Panicking p, rs', w')
         | (Returned, rs', w') \<Rightarrow>
             (Returned, rs', log_to logger LevelInfo ''http request''
                (access_entry r (ctx_clientIP (r_Context r)) (Status_of rs') (length (rs_body rs') - length (rs_body rs))
                   (w_now w' - start)) w'))"

section \<open>Metrics (metrics.go)\<close>

definition NewMetrics :: metrics where
  "NewMetrics = \<lparr>inFlight = 0, requests = [], durations = []\<rparr>"

definition methodOther :: string where
  [go_defs]: "methodOther = ''other''"

definition standard_methods :: "string list" where
  "standard_methods = [''GET'', ''HEAD'', ''POST'', ''PUT'', ''PATCH'', ''DELETE'', ''CONNECT'', ''OPTIONS'', ''TRACE'']"

definition normalizeMethod :: "string \<Rightarrow> string" where
  "normalizeMethod m = (if m \<in> set standard_methods then m else methodOther)"

definition routePattern :: "(http_request \<Rightarrow> string option) \<Rightarrow> http_request \<Rightarrow> string" where
  "routePattern route r = (case route r of Some p \<Rightarrow> if p \<noteq> [] then p else ''unmatched'' | None \<Rightarrow> ''unmatched'')"

definition add_inFlight :: "int \<Rightarrow> 'w world \<Rightarrow> 'w world" where
  "add_inFlight d w = w\<lparr>w_metrics := (w_metrics w)\<lparr>inFlight := inFlight (w_metrics w) + d\<rparr>\<rparr>"

definition counter_value :: "metrics \<Rightarrow> string \<times> string \<times> string \<Rightarrow> nat" where
  "counter_value m labels = (case map_of (requests m) labels of Some n \<Rightarrow> n | None \<Rightarrow> 0)"

definition observe_request :: "string \<Rightarrow> string \<Rightarrow> nat \<Rightarrow> duration \<Rightarrow> metrics \<Rightarrow> metrics" where
  "observe_request method rt status d m =
     (let labels = (method, rt, Itoa (int status))
      in m\<lparr>durations := durations m @ [((method, rt), d)], requests := aput labels (Suc (counter_value m labels)) (requests m)\<rparr>)"

definition Metrics_Middleware :: "(http_request \<Rightarrow> string option) \<Rightarrow> 'w http_middleware" where
  "Metrics_Middleware route nxt r rs w =
     (let w0 = add_inFlight 1 w;
          start = w_now w0
      in case nxt r rs w0 of
           (Panicking p, rs', w') \<Rightarrow> (Panicking p, rs', add_inFlight (- 1) w')
         | (Returned, rs', w') \<Rightarrow>
             (Returned, rs',
              add_inFlight (- 1)
                (w'\<lparr>w_metrics := observe_request (normalizeMethod (r_Method r)) (routePattern route r) (Status_of rs')
                      (w_now w' - start) (w_metrics w')\<rparr>)))"

section \<open>Tracing (tracing.go)\<close>

record tracing_config =
  tc_Enabled :: bool
  tc_ServiceName :: string
  tc_ServiceVersion :: string

text \<open>The process-wide OpenTelemetry state: exporters created, and the global provider and propagators.\<close>

record otel_state =
  ot_exporters :: nat
  ot_provider :: "(string \<times> string) option"
  ot_propagators :: "string list"

record otel_lib =
  otlptracehttp_New :: "go_error option"
  resource_New :: "string \<Rightarrow> string \<Rightarrow> go_error option"

definition NewTracerProvider :: "otel_lib \<Rightarrow> tracing_config \<Rightarrow> otel_state \<Rightarrow> (bool option) result \<times> otel_state" where
  "NewTracerProvider lib cfg s =
     (if \<not> tc_Enabled cfg then (Inr None, s)
      else case otlptracehttp_New lib of
        Some e \<Rightarrow> (Inl (Errorf ''create otlp trace exporter: %w'' [] e), s)
      | None \<Rightarrow>
          (let s1 = s\<lparr>ot_exporters := Suc (ot_exporters s)\<rparr> in
           case resource_New lib (tc_ServiceName cfg) (tc_ServiceVersion cfg) of
             Some e \<Rightarrow> (Inl (Errorf ''build trace resource: %w'' [] e), s1)
           | None \<Rightarrow>
               (Inr (Some True), s1\<lparr>ot_provider := Some (tc_ServiceName cfg, tc_ServiceVersion cfg),
                                    ot_propagators := [''tracecontext'', ''baggage'']\<rparr>)))"

text \<open>The active span of a request, as the SDK exposes it.\<close>

record 'w span_lib =
  span_IsRecording :: "huma_ctx \<Rightarrow> 'w \<Rightarrow> bool"
  span_Name :: "huma_ctx \<Rightarrow> string \<Rightarrow> 'w \<Rightarrow> 'w"
  span_HTTPRoute :: "huma_ctx \<Rightarrow> string \<Rightarrow> 'w \<Rightarrow> 'w"

definition TraceSpanNamer :: "'w span_lib \<Rightarrow> ('w, 'r) middleware" where
  "TraceSpanNamer spans ctx nxt w =
     (if span_IsRecording spans ctx w
      then case hctx_Operation ctx of
             None \<Rightarrow> (Panicked, w)
           | Some oper \<Rightarrow> nxt ctx (span_HTTPRoute spans ctx (op_Path oper) (span_Name spans ctx (OperationID oper) w))
      else nxt ctx w)"

section \<open>Lemmas\<close>

text \<open>A handler that leaves the metrics to the middleware.\<close>

definition metrics_frame :: "'w http_handler \<Rightarrow> bool" where
  "metrics_frame h \<longleftrightarrow> (\<forall>r rs w. w_metrics (snd (snd (h r rs w))) = w_metrics w)"

lemma metrics_frame_result: "metrics_frame h \<Longrightarrow> h r rs w = (out, rs', w') \<Longrightarrow> w_metrics w' = w_metrics w"
  unfolding metrics_frame_def by (metis snd_conv)

lemma Metrics_Middleware_metrics:
  assumes "metrics_frame h" and "Metrics_Middleware route h r rs w = (out, rs', w')"
  shows "w_metrics w' =
     (case out of
        Panicking p \<Rightarrow> w_metrics w
      | Returned \<Rightarrow> (observe_request (normalizeMethod (r_Method r)) (routePattern route r) (Status_of rs')
                      (w_now w' - w_now w) (w_metrics w)))"
proof -
  obtain o1 rs1 w1 where h: "h r rs (add_inFlight 1 w) = (o1, rs1, w1)" by (metis prod_cases3)
  from metrics_frame_result [OF assms(1) h] have "w_metrics w1 = w_metrics (add_inFlight 1 w)" .
  with assms(2) h show ?thesis
    by (cases o1) (auto simp: Metrics_Middleware_def add_inFlight_def observe_request_def counter_value_def Let_def)
qed

text \<open>The labels the middleware can produce.\<close>

definition label_ok :: "string set \<Rightarrow> string \<times> string \<Rightarrow> bool" where
  "label_ok patterns l \<longleftrightarrow> fst l \<in> insert methodOther (set standard_methods) \<and> snd l \<in> insert ''unmatched'' patterns"

lemma label_ok_request:
  "route r \<in> insert None (Some ` patterns) \<Longrightarrow> label_ok patterns (normalizeMethod (r_Method r), routePattern route r)"
  by (auto simp: label_ok_def normalizeMethod_def routePattern_def)

lemma finite_labels: "finite patterns \<Longrightarrow> finite {l. label_ok patterns l}"
  "finite patterns \<Longrightarrow> card {l. label_ok patterns l} \<le> 10 * Suc (card patterns)"
proof -
  have eq: "{l. label_ok patterns l} = insert methodOther (set standard_methods) \<times> insert ''unmatched'' patterns"
    by (auto simp: label_ok_def)
  have "card (insert methodOther (set standard_methods)) = 10" by (simp add: standard_methods_def methodOther_def)
  moreover assume "finite patterns"
  then have "card (insert ''unmatched'' patterns) \<le> Suc (card patterns)" by (simp add: card_insert_if)
  ultimately show "card {l. label_ok patterns l} \<le> 10 * Suc (card patterns)" unfolding eq card_cartesian_product by (simp only: mult_le_mono2)
  show "finite {l. label_ok patterns l}" unfolding eq using \<open>finite patterns\<close> by simp
qed

text \<open>A server's history: requests, each with the handler that serves it, one after the other.\<close>

fun serve_all :: "(http_request \<Rightarrow> string option) \<Rightarrow> ('w http_handler \<times> http_request) list \<Rightarrow> 'w world \<Rightarrow> ending list \<times> 'w world" where
  "serve_all route [] w = ([], w)"
| "serve_all route ((h, r) # hs) w =
     (case Metrics_Middleware route h r empty_response w of
        (out, rs, w1) \<Rightarrow> (case serve_all route hs w1 of (outs, w2) \<Rightarrow> (out # outs, w2)))"

lemma sum_aput_Suc:
  "sum_list (map snd (aput k (Suc (case map_of m k of Some n \<Rightarrow> n | None \<Rightarrow> 0)) m)) = Suc (sum_list (map snd m))"
  by (induction m) auto

lemma observe_request_counts:
  "inFlight (observe_request method rt status d m) = inFlight m"
  "durations (observe_request method rt status d m) = durations m @ [((method, rt), d)]"
  "sum_list (map snd (requests (observe_request method rt status d m))) = Suc (sum_list (map snd (requests m)))"
  by (simp_all add: observe_request_def counter_value_def Let_def sum_aput_Suc)

lemma serve_all_metrics:
  assumes "\<forall>(h, r) \<in> set hs. metrics_frame h \<and> route r \<in> insert None (Some ` patterns)"
    and "serve_all route hs w = (outs, w')"
    and "fst ` set (durations (w_metrics w)) \<subseteq> {l. label_ok patterns l}"
  shows "inFlight (w_metrics w') = inFlight (w_metrics w) \<and> fst ` set (durations (w_metrics w')) \<subseteq> {l. label_ok patterns l}
    \<and> length (durations (w_metrics w')) = length (durations (w_metrics w)) + length (filter (\<lambda>out. out = Returned) outs)
    \<and> sum_list (map snd (requests (w_metrics w'))) = sum_list (map snd (requests (w_metrics w))) + length (filter (\<lambda>out. out = Returned) outs)"
  using assms
proof (induction hs arbitrary: w outs w')
  case (Cons hr hs)
  obtain h r where hr: "hr = (h, r)" by fastforce
  obtain out rs w1 where m: "Metrics_Middleware route h r empty_response w = (out, rs, w1)" by (metis prod_cases3)
  obtain outs1 w2 where rest: "serve_all route hs w1 = (outs1, w2)" by fastforce
  from Cons.prems hr have frame: "metrics_frame h" and rt: "route r \<in> insert None (Some ` patterns)" by auto
  note step = Metrics_Middleware_metrics [OF frame m]
  have "fst ` set (durations (w_metrics w1)) \<subseteq> {l. label_ok patterns l}"
    unfolding step using Cons.prems(3) label_ok_request [of route r patterns, OF rt]
    by (auto simp: observe_request_def Let_def split: ending.split)
  note labels = this
  have hyps: "\<forall>(h, r) \<in> set hs. metrics_frame h \<and> route r \<in> insert None (Some ` patterns)" using Cons.prems(1) by simp
  have tail: "inFlight (w_metrics w2) = inFlight (w_metrics w1) \<and> fst ` set (durations (w_metrics w2)) \<subseteq> {l. label_ok patterns l}
    \<and> length (durations (w_metrics w2)) = length (durations (w_metrics w1)) + length (filter (\<lambda>out. out = Returned) outs1)
    \<and> sum_list (map snd (requests (w_metrics w2))) = sum_list (map snd (requests (w_metrics w1))) + length (filter (\<lambda>out. out = Returned) outs1)"
    by (rule Cons.IH [OF hyps rest labels])
  have outs: "outs = out # outs1" "w' = w2" using Cons.prems(2) by (simp_all add: hr m rest)
  have "inFlight (w_metrics w1) = inFlight (w_metrics w)
    \<and> length (durations (w_metrics w1)) = length (durations (w_metrics w)) + (if out = Returned then 1 else 0)
    \<and> sum_list (map snd (requests (w_metrics w1))) = sum_list (map snd (requests (w_metrics w))) + (if out = Returned then 1 else 0)"
    unfolding step by (cases out) (simp_all add: observe_request_counts)
  with tail show ?case unfolding outs by (elim conjE, intro conjI) (assumption | simp)+
qed auto

section \<open>Properties\<close>


definition sample_request :: http_request where
  "sample_request = \<lparr>r_Method = ''GET'', r_Path = ''/healthz'', r_Header = [(''X-Api-Key'', ''secret'')], r_RemoteAddr = ''10.0.0.1:4711'',
     r_Context = \<lparr>ctx_principal = None, ctx_deadline = None, ctx_clientIP = ''10.0.0.1'', ctx_reqID = ''req-1'', ctx_logger = None\<rparr>\<rparr>"

definition sample_world :: "unit world" where
  "sample_world = \<lparr>w_now = 0, w_gone = None, w_log = [], w_metrics = NewMetrics, w_app = ()\<rparr>"


text \<open>
  The access log never depends on what a request says in its headers.
\<close>

lemma access_log_ignores_headers:
  assumes "nxt (WithContext (r\<lparr>r_Header := headers\<rparr>) ctx) rs w = nxt (WithContext r ctx) rs w"
    and "ctx = WithLogger (r_Context r) (With_request_id (ctx_reqID (r_Context r)) base)"
    and "nxt (WithContext r ctx) rs w = (Returned, rs', w')" and "logs_at base LevelInfo"
  shows "RequestLogger base nxt (r\<lparr>r_Header := headers\<rparr>) rs w = RequestLogger base nxt r rs w
    \<and> w_log (snd (snd (RequestLogger base nxt r rs w))) =
        w_log w' @ [\<lparr>le_scope = Some (ctx_reqID (r_Context r)), le_level = LevelInfo, le_msg = ''http request'',
           le_attrs = access_entry r (ctx_clientIP (r_Context r)) (Status_of rs') (length (rs_body rs') - length (rs_body rs)) (w_now w' - w_now w)\<rparr>]"
  using assms by (simp add: RequestLogger_def Let_def access_entry_def log_to_def)

end
