(* ===== verification/GoFloat.thy ===== *)
theory GoFloat
  imports Prelude Complex_Main
begin

text \<open>
  Go's \<open>float64\<close>: the values, the comparison with zero the program makes, \<open>time.Duration.Seconds\<close> and
  what the code relies on of rounding.  A finite value is the rational it denotes; rounding to the
  nearest double is the parameter \<open>fl\<close> of the operations that round.
\<close>

datatype float64 = NaN | PosInf | NegInf | Fin rat

text \<open>\<open>x <= 0\<close>; every comparison with NaN is false.\<close>

fun float_le_zero :: "float64 \<Rightarrow> bool" where
  "float_le_zero NaN = False"
| "float_le_zero PosInf = False"
| "float_le_zero NegInf = True"
| "float_le_zero (Fin q) = (q \<le> 0)"

text \<open>\<open>Duration.Seconds\<close>: the whole seconds and the rest divided by \<open>1e9\<close>, added in float64.\<close>

definition Seconds :: "(rat \<Rightarrow> rat) \<Rightarrow> duration \<Rightarrow> rat" where
  "Seconds fl d = fl (of_int (d div Second) + fl (of_int (d mod Second) / 1000000000))"

section \<open>Rounding\<close>

text \<open>
  What the code relies on of float64: rounding is monotone, exact on integers below \<open>2\<^sup>5\<^sup>3\<close>, and of
  relative error at most \<open>2\<^sup>-\<^sup>5\<^sup>3\<close> on normal numbers.
\<close>

definition ieee_double :: "(rat \<Rightarrow> rat) \<Rightarrow> bool" where
  "ieee_double fl \<longleftrightarrow> mono fl \<and> (\<forall>n. \<bar>n\<bar> \<le> 2 ^ 53 \<longrightarrow> fl (of_int n) = of_int n)
     \<and> (\<forall>x. 1 / 2 ^ 1022 \<le> \<bar>x\<bar> \<longrightarrow> \<bar>fl x - x\<bar> \<le> \<bar>x\<bar> / 2 ^ 53)"

lemma fl_error: "ieee_double fl \<Longrightarrow> 1 / 2 ^ 30 \<le> x \<Longrightarrow> \<bar>fl x - x\<bar> \<le> x / 9007199254740992"
proof -
  assume a: "ieee_double fl" "1 / 2 ^ 30 \<le> x"
  have "(1::rat) / 2 ^ 1022 \<le> 1 / 2 ^ 30" by (intro divide_left_mono power_increasing) simp_all
  then have x: "1 / 2 ^ 1022 \<le> x" using a(2) by (rule order_trans)
  have "0 < (1::rat) / 2 ^ 1022" by (simp only: zero_less_divide_1_iff zero_less_power zero_less_numeral)
  with x have abs: "\<bar>x\<bar> = x" by (intro abs_of_nonneg) (rule less_imp_le, erule less_le_trans)
  with x have "1 / 2 ^ 1022 \<le> \<bar>x\<bar>" by (simp only:)
  with abs have "\<bar>fl x - x\<bar> \<le> x / 2 ^ 53" using a(1) unfolding ieee_double_def by metis
  then show ?thesis by simp
qed

lemma Seconds_between:
  assumes "ieee_double fl" and "0 \<le> d" and "d \<le> 2 ^ 22 * Second" and "d mod Second \<noteq> 0"
  shows "of_int (d div Second) < Seconds fl d \<and> Seconds fl d < of_int (d div Second) + 1"
proof -
  define q r where "q = d div Second" and "r = d mod Second"
  have "0 \<le> q" "q \<le> 2 ^ 22" using assms(2,3) by (auto simp: q_def Second_def)
  have "1 \<le> r" "r \<le> 999999999" using assms(4) pos_mod_bound [of Second d] pos_mod_sign [of Second d] by (auto simp: r_def Second_def)
  define x :: rat where "x = of_int r / 1000000000"
  have x: "1 / 1000000000 \<le> x" "x \<le> 999999999 / 1000000000"
    using \<open>1 \<le> r\<close> \<open>r \<le> 999999999\<close> of_int_le_iff [of 1 r, where ?'a = rat] of_int_le_iff [of r 999999999, where ?'a = rat]
    by (simp_all add: x_def)
  have e1: "\<bar>fl x - x\<bar> \<le> x / 9007199254740992" using assms(1) x by (intro fl_error) simp_all
  define y :: rat where "y = of_int q + fl x"
  have qr: "0 \<le> (of_int q :: rat)" "(of_int q :: rat) \<le> 4194304"
    using \<open>0 \<le> q\<close> \<open>q \<le> 2 ^ 22\<close> of_int_le_iff [of q 4194304, where ?'a = rat] by simp_all
  note b1 = abs_le_D1 [OF e1] abs_le_D2 [OF e1]
  have y: "of_int q + 999999 / 1000000000000000 \<le> y \<and> y \<le> of_int q + 1 - 999999 / 1000000000000000"
    unfolding y_def by (rule conjI) (use b1 x in linarith)+
  have e2: "\<bar>fl y - y\<bar> \<le> y / 9007199254740992" using assms(1) y qr by (intro fl_error) simp_all
  have "Seconds fl d = fl y" by (simp add: Seconds_def y_def x_def q_def r_def)
  then show ?thesis unfolding q_def [symmetric]
    by (intro conjI) (use abs_le_D1 [OF e2] abs_le_D2 [OF e2] y qr in linarith)+
qed

lemma div_bracket:
  fixes d :: int
  assumes "0 < n" and "d mod n \<noteq> 0"
  shows "d div n * n < d \<and> d < (d div n + 1) * n"
proof -
  have "d = d div n * n + d mod n" by simp
  moreover have "0 < d mod n" "d mod n < n" using assms pos_mod_sign [of n d] pos_mod_bound [of n d] by (auto simp: order_less_le)
  moreover have "(d div n + 1) * n = d div n * n + n" by (simp add: algebra_simps)
  ultimately show ?thesis by linarith
qed

end
