(* ===== verification/RateLimit.thy ===== *)
theory RateLimit
  imports AuthzMiddleware GoFloat
begin

text \<open>
  Rate limiting: \<open>internal/ratelimit/limiter.go\<close>, the in-process limiter of \<open>memory.go\<close> and the Huma
  middleware of \<open>middleware.go\<close>, with the key function of \<open>internal/adapter/http/ratelimit.go\<close>.

  The token bucket itself is \<open>golang.org/x/time/rate\<close>, the parameter \<open>rate_lib\<close>.  A \<open>*rate.Limiter\<close> is
  an address into the list \<open>buckets\<close>, because the client map and a request that is being checked
  share it.  Every reading of the clock is an argument.
\<close>

section \<open>The port (limiter.go)\<close>

record decision =
  Allowed :: bool
  RetryAfter :: duration

type_synonym 'w limiter = "string \<Rightarrow> 'w \<Rightarrow> decision result \<times> 'w"

section \<open>The in-process limiter (memory.go)\<close>

record ('b, 'v) rate_lib =
  rate_NewLimiter :: "float64 \<Rightarrow> int \<Rightarrow> 'b"
  rate_Reserve :: "time \<Rightarrow> 'b \<Rightarrow> 'v \<times> 'b"
  rate_OK :: "'v \<Rightarrow> bool"
  rate_DelayFrom :: "'v \<Rightarrow> time \<Rightarrow> duration"
  rate_CancelAt :: "'v \<Rightarrow> time \<Rightarrow> 'b \<Rightarrow> 'b"

definition minIdleTTL :: duration where
  [go_defs]: "minIdleTTL = Minute"

record client_bucket =
  cb_limiter :: nat
  lastSeen :: time

record 'b in_memory =
  rps :: float64
  burst :: int
  ttl :: duration
  clients :: "(string \<times> client_bucket) list"
  buckets :: "'b list"
  stopped :: bool
  stop_closed :: nat

definition NewInMemory :: "float64 \<Rightarrow> int \<Rightarrow> duration \<Rightarrow> 'b in_memory" where
  "NewInMemory r b idleTTL =
     (let t = (if idleTTL < minIdleTTL then minIdleTTL else idleTTL)
      in \<lparr>rps = r, burst = b, ttl = t, clients = [], buckets = [], stopped = False, stop_closed = 0\<rparr>)"

definition bucket :: "('b, 'v) rate_lib \<Rightarrow> time \<Rightarrow> string \<Rightarrow> 'b in_memory \<Rightarrow> nat \<times> 'b in_memory" where
  "bucket lib now key l =
     (let (c, l1) = (case map_of (clients l) key of
            Some c \<Rightarrow> (c, l)
          | None \<Rightarrow>
              (let c = \<lparr>cb_limiter = length (buckets l), lastSeen = zero_time\<rparr>
               in (c, l\<lparr>clients := aput key c (clients l),
                        buckets := buckets l @ [rate_NewLimiter lib (rps l) (burst l)]\<rparr>)))
      in (cb_limiter c, l1\<lparr>clients := aput key (c\<lparr>lastSeen := now\<rparr>) (clients l1)\<rparr>))"

definition in_memory_Allow :: "('b, 'v) rate_lib \<Rightarrow> time \<times> time \<times> time \<times> time \<Rightarrow> string \<Rightarrow> 'b in_memory
    \<Rightarrow> decision result \<times> 'b in_memory" where
  "in_memory_Allow lib clock key l =
     (case clock of
        (t0, t1, t2, t3) \<Rightarrow>
          (case bucket lib t0 key l of
             (a, l1) \<Rightarrow>
               (case rate_Reserve lib t1 (buckets l1 ! a) of
                  (reservation, b) \<Rightarrow>
                    (let l2 = l1\<lparr>buckets := (buckets l1)[a := b]\<rparr> in
                     if \<not> rate_OK lib reservation then (Inr \<lparr>Allowed = False, RetryAfter = 0\<rparr>, l2)
                     else let delay = rate_DelayFrom lib reservation t2 in
                       if delay > 0
                       then (Inr \<lparr>Allowed = False, RetryAfter = delay\<rparr>,
                             l2\<lparr>buckets := (buckets l2)[a := rate_CancelAt lib reservation t3 b]\<rparr>)
                       else (Inr \<lparr>Allowed = True, RetryAfter = 0\<rparr>, l2)))))"

definition Stop :: "'b in_memory \<Rightarrow> 'b in_memory" where
  "Stop l = (if stopped l then l else l\<lparr>stopped := True, stop_closed := Suc (stop_closed l)\<rparr>)"

definition evictIdle :: "time \<Rightarrow> 'b in_memory \<Rightarrow> 'b in_memory" where
  "evictIdle now l =
     (let cutoff = now - ttl l
      in l\<lparr>clients := filter (\<lambda>(key, c). \<not> lastSeen c < cutoff) (clients l)\<rparr>)"

text \<open>
  The janitor's loop: until it has seen the closed stop channel it may receive a tick, and evict, or
  the close, and return.  When both are ready \<open>select\<close> picks either.
\<close>

inductive janitor :: "bool \<times> 'b in_memory \<Rightarrow> bool \<times> 'b in_memory \<Rightarrow> bool" where
  janitor_stop: "stop_closed l > 0 \<Longrightarrow> janitor (True, l) (False, l)"
| janitor_tick: "janitor (True, l) (True, evictIdle now l)"

section \<open>The middleware (middleware.go)\<close>

definition genericTooManyRequests :: string where
  "genericTooManyRequests = ''rate limit exceeded; retry later''"

type_synonym key_func = "huma_ctx \<Rightarrow> string result"

record 'w rl_mw =
  rl_limiter :: "'w limiter"
  rl_key :: key_func
  rl_logger :: "'w log_sink"
  rl_enabled :: bool

text \<open>As for the authorization middleware, the argument is the logger after \<open>slog.Default\<close> replaced a nil one.\<close>

definition rl_NewMiddleware :: "'w limiter \<Rightarrow> key_func \<Rightarrow> 'w log_sink \<Rightarrow> bool \<Rightarrow> 'w rl_mw" where
  "rl_NewMiddleware lmt key lg enabled = \<lparr>rl_limiter = lmt, rl_key = key, rl_logger = lg, rl_enabled = enabled\<rparr>"

text \<open>\<open>int(math.Ceil(d.Seconds()))\<close>.\<close>

definition retry_seconds :: "(rat \<Rightarrow> rat) \<Rightarrow> duration \<Rightarrow> int" where
  "retry_seconds fl d = ceiling (Seconds fl d)"

definition limit :: "(rat \<Rightarrow> rat) \<Rightarrow> 'w rl_mw \<Rightarrow> ('w, 'r) middleware" where
  "limit fl m ctx nxt w =
     (case rl_key m ctx of
        Inl e \<Rightarrow> nxt ctx (rl_logger m LevelWarn ''rate-limit key extraction failed; allowing request'' [(''error'', LError e)] w)
      | Inr key \<Rightarrow>
          (case rl_limiter m key w of
             (Inl e, w') \<Rightarrow> nxt ctx (rl_logger m LevelError ''rate limiter unavailable; allowing request'' [(''error'', LError e)] w')
           | (Inr d, w') \<Rightarrow>
               (if Allowed d then nxt ctx w'
                else (Problem 429 genericTooManyRequests
                       (if RetryAfter d > 0 then [(''Retry-After'', Itoa (retry_seconds fl (RetryAfter d)))] else []),
                      rl_logger m LevelInfo ''rate limit exceeded'' [(''key'', LString key)] w'))))"

definition rl_Install :: "(rat \<Rightarrow> rat) \<Rightarrow> 'w rl_mw \<Rightarrow> ('w, 'r) middleware list \<Rightarrow> ('w, 'r) middleware list" where
  "rl_Install fl m stack = (if \<not> rl_enabled m then stack else stack @ [limit fl m])"

definition ClientIPKeyFunc :: key_func where
  "ClientIPKeyFunc ctx = Inr (ctx_clientIP (hctx_Context ctx))"

section \<open>Abstract specification\<close>

text \<open>
  What the limiter promises each client: an automaton of its own, whose state is the client's bucket and
  when it was last seen, or nothing for a client that is not tracked.  A check reserves a token and, when
  a wait would be needed, cancels; the janitor drops a client idle for longer than the TTL.  The reference
  has no addresses and no shared map.
\<close>

type_synonym check_clock = "time \<times> time \<times> time \<times> time"

definition check_bucket :: "('b, 'v) rate_lib \<Rightarrow> check_clock \<Rightarrow> 'b \<Rightarrow> decision \<times> 'b" where
  "check_bucket lib clock b =
     (case clock of
        (_, t1, t2, t3) \<Rightarrow>
          (case rate_Reserve lib t1 b of
             (r, b') \<Rightarrow>
               if \<not> rate_OK lib r then (\<lparr>Allowed = False, RetryAfter = 0\<rparr>, b')
               else if rate_DelayFrom lib r t2 > 0
               then (\<lparr>Allowed = False, RetryAfter = rate_DelayFrom lib r t2\<rparr>, rate_CancelAt lib r t3 b')
               else (\<lparr>Allowed = True, RetryAfter = 0\<rparr>, b')))"

text \<open>The automaton of one client: \<open>fresh\<close> is the full bucket it starts with.\<close>

type_synonym 'b client = "('b \<times> time) option"

fun client_check :: "('b, 'v) rate_lib \<Rightarrow> 'b \<Rightarrow> check_clock \<Rightarrow> 'b client \<Rightarrow> decision \<times> 'b client" where
  "client_check lib fresh clock c =
     (let (d, b) = check_bucket lib clock (case c of Some (b, _) \<Rightarrow> b | None \<Rightarrow> fresh) in (d, Some (b, fst clock)))"

definition client_evict :: "duration \<Rightarrow> time \<Rightarrow> 'b client \<Rightarrow> 'b client" where
  "client_evict t now c = (case c of Some (b, seen) \<Rightarrow> if seen < now - t then None else c | None \<Rightarrow> None)"

section \<open>The interface of a per-client limiter\<close>

text \<open>
  The history of a limiter: checks of requests and ticks of the janitor.  \<open>run_events\<close> runs it and
  collects the decisions with their keys; \<open>run_client\<close> is what one client's automaton makes of it, and
  \<open>own_events\<close> the part of it that concerns that client.
\<close>

datatype 't event = Check 't string | Evict time

fun run_events :: "('t \<Rightarrow> string \<Rightarrow> 's \<Rightarrow> 'd \<times> 's) \<Rightarrow> (time \<Rightarrow> 's \<Rightarrow> 's) \<Rightarrow> 't event list \<Rightarrow> 's \<Rightarrow> (string \<times> 'd) list \<times> 's" where
  "run_events check evict [] s = ([], s)"
| "run_events check evict (Check t key # es) s =
     (let (d, s1) = check t key s; (ds, s2) = run_events check evict es s1 in ((key, d) # ds, s2))"
| "run_events check evict (Evict now # es) s = run_events check evict es (evict now s)"

fun run_client :: "('t \<Rightarrow> 'c \<Rightarrow> 'd \<times> 'c) \<Rightarrow> (time \<Rightarrow> 'c \<Rightarrow> 'c) \<Rightarrow> string \<Rightarrow> 't event list \<Rightarrow> 'c \<Rightarrow> 'd list \<times> 'c" where
  "run_client step drop_idle k [] c = ([], c)"
| "run_client step drop_idle k (Check t key # es) c =
     (if key \<noteq> k then run_client step drop_idle k es c
      else let (d, c1) = step t c; (ds, c2) = run_client step drop_idle k es c1 in (d # ds, c2))"
| "run_client step drop_idle k (Evict now # es) c = run_client step drop_idle k es (drop_idle now c)"

definition own_events :: "string \<Rightarrow> 't event list \<Rightarrow> 't event list" where
  "own_events k es = filter (\<lambda>e. case e of Check _ key \<Rightarrow> key = k | Evict _ \<Rightarrow> True) es"

definition decisions_of :: "string \<Rightarrow> (string \<times> 'd) list \<Rightarrow> 'd list" where
  "decisions_of k ds = map snd (filter (\<lambda>(key, _). key = k) ds)"

lemma run_client_own: "run_client step drop_idle k (own_events k es) c = run_client step drop_idle k es c"
proof (induction es arbitrary: c)
  case (Cons e es)
  then show ?case by (cases e) (auto simp: own_events_def split_beta Let_def)
qed (simp add: own_events_def)

lemma run_client_Inr:
  "run_client (\<lambda>t c. apfst Inr (step t c)) drop_idle k es c = apfst (map Inr) (run_client step drop_idle k es c)"
proof (induction es arbitrary: c)
  case (Cons e es)
  then show ?case by (cases e) (auto simp: split_beta Let_def)
qed simp

text \<open>
  The contract: each key has a view that only its own checks and the evictions change, as \<open>step\<close> and
  \<open>drop_idle\<close> say.
\<close>

locale per_client_limiter =
  fixes inv :: "'s \<Rightarrow> bool"
    and view :: "'s \<Rightarrow> string \<Rightarrow> 'c"
    and check :: "'t \<Rightarrow> string \<Rightarrow> 's \<Rightarrow> 'd \<times> 's"
    and evict :: "time \<Rightarrow> 's \<Rightarrow> 's"
    and step :: "'t \<Rightarrow> 'c \<Rightarrow> 'd \<times> 'c"
    and drop_idle :: "time \<Rightarrow> 'c \<Rightarrow> 'c"
  assumes check_inv: "inv s \<Longrightarrow> inv (snd (check t key s))"
    and check_decision: "inv s \<Longrightarrow> fst (check t key s) = fst (step t (view s key))"
    and check_view: "inv s \<Longrightarrow> view (snd (check t key s)) k = (if k = key then snd (step t (view s key)) else view s k)"
    and evict_inv: "inv s \<Longrightarrow> inv (evict now s)"
    and evict_view: "inv s \<Longrightarrow> view (evict now s) k = drop_idle now (view s k)"
begin

lemma run_refines:
  assumes "inv s"
  shows "inv (snd (run_events check evict es s))
    \<and> decisions_of k (fst (run_events check evict es s)) = fst (run_client step drop_idle k es (view s k))
    \<and> view (snd (run_events check evict es s)) k = snd (run_client step drop_idle k es (view s k))"
  using assms
proof (induction es arbitrary: s)
  case (Cons e es)
  show ?case
  proof (cases e)
    case (Check t key)
    obtain d s1 where c: "check t key s = (d, s1)" by fastforce
    from Cons.prems c check_inv [of s t key] check_decision [of s t key] check_view [of s t key k]
    have facts: "inv s1" "d = fst (step t (view s key))"
      "view s1 k = (if k = key then snd (step t (view s key)) else view s k)" by simp_all
    from Cons.IH [OF facts(1)] facts(2,3) c Check show ?thesis
      by (auto simp: split_beta Let_def decisions_of_def)
  next
    case (Evict now)
    with Cons.IH [OF evict_inv [OF Cons.prems, of now]] Cons.prems show ?thesis by (simp add: evict_view)
  qed
qed (simp add: decisions_of_def)

text \<open>So a client's decisions do not depend on the requests of the others.\<close>

lemma run_isolated:
  assumes "inv s" and "inv s'" and "view s k = view s' k" and "own_events k es = own_events k es'"
  shows "decisions_of k (fst (run_events check evict es s)) = decisions_of k (fst (run_events check evict es' s'))"
  using run_refines [OF assms(1), of es k] run_refines [OF assms(2), of es' k]
    run_client_own [of step drop_idle k es] run_client_own [of step drop_idle k es'] assms(3,4) by metis

end

text \<open>The view of a key: its bucket, through its address, and when it was seen.\<close>

definition lim_view :: "'b in_memory \<Rightarrow> string \<Rightarrow> 'b client" where
  "lim_view l key = map_option (\<lambda>c. (buckets l ! cb_limiter c, lastSeen c)) (map_of (clients l) key)"

text \<open>The invariant: one entry per key, addresses valid and not shared, the stop channel closed at most once.\<close>

definition addr_ok :: "(string \<rightharpoonup> client_bucket) \<Rightarrow> nat \<Rightarrow> bool" where
  "addr_ok m n \<longleftrightarrow> (\<forall>k c. m k = Some c \<longrightarrow> cb_limiter c < n)
     \<and> (\<forall>k k' c c'. m k = Some c \<and> m k' = Some c' \<and> cb_limiter c = cb_limiter c' \<longrightarrow> k = k')"

definition keys_ok :: "('k \<times> 'v) list \<Rightarrow> bool" where
  "keys_ok m \<longleftrightarrow> distinct (map fst m)"

definition lim_inv :: "'b in_memory \<Rightarrow> bool" where
  "lim_inv l \<longleftrightarrow> keys_ok (clients l) \<and> addr_ok (map_of (clients l)) (length (buckets l))
     \<and> minIdleTTL \<le> ttl l \<and> stop_closed l = (if stopped l then 1 else 0)"

section \<open>Lemmas\<close>

lemma keys_ok_aput [simp]: "keys_ok m \<Longrightarrow> keys_ok (aput k v m)"
  by (simp add: keys_ok_def)

lemma addr_ok_seen: "addr_ok m n \<Longrightarrow> m key = Some c \<Longrightarrow> cb_limiter c' = cb_limiter c \<Longrightarrow> addr_ok (m(key \<mapsto> c')) n"
  by (auto simp: addr_ok_def)

lemma addr_ok_fresh: "addr_ok m n \<Longrightarrow> cb_limiter c = n \<Longrightarrow> addr_ok (m(key \<mapsto> c)) (Suc n)"
  by (fastforce simp: addr_ok_def less_Suc_eq)

lemma addr_ok_less: "addr_ok m n \<Longrightarrow> m k = Some c \<Longrightarrow> cb_limiter c < n"
  by (auto simp: addr_ok_def)

lemma addr_ok_other: "addr_ok m n \<Longrightarrow> m k = Some c \<Longrightarrow> m k' = Some c' \<Longrightarrow> k \<noteq> k' \<Longrightarrow> cb_limiter c \<noteq> cb_limiter c'"
  by (auto simp: addr_ok_def)

lemma addr_ok_mono: "addr_ok m n \<Longrightarrow> m' \<subseteq>\<^sub>m m \<Longrightarrow> addr_ok m' n"
  unfolding addr_ok_def map_le_def by (metis domI)

lemma lim_inv_New [simp]: "lim_inv (NewInMemory r b t)"
  by (simp add: lim_inv_def NewInMemory_def Let_def addr_ok_def keys_ok_def)

lemma lim_view_New [simp]: "lim_view (NewInMemory r b t) k = None"
  by (simp add: lim_view_def NewInMemory_def Let_def)

lemma bucket_cases:
  obtains (known) c where "map_of (clients l) key = Some c"
      "bucket lib now key l = (cb_limiter c, l\<lparr>clients := aput key (c\<lparr>lastSeen := now\<rparr>) (clients l)\<rparr>)"
  | (fresh) "map_of (clients l) key = None"
      "bucket lib now key l = (length (buckets l),
         l\<lparr>clients := aput key \<lparr>cb_limiter = length (buckets l), lastSeen = now\<rparr> (aput key \<lparr>cb_limiter = length (buckets l), lastSeen = zero_time\<rparr> (clients l)),
            buckets := buckets l @ [rate_NewLimiter lib (rps l) (burst l)]\<rparr>)"
  by (cases "map_of (clients l) key") (auto simp: bucket_def Let_def)

definition same_settings :: "'b in_memory \<Rightarrow> 'b in_memory \<Rightarrow> bool" where
  "same_settings l l' \<longleftrightarrow> rps l' = rps l \<and> burst l' = burst l \<and> ttl l' = ttl l \<and> stopped l' = stopped l \<and> stop_closed l' = stop_closed l"

lemma bucket_spec:
  assumes "lim_inv l" and "bucket lib now key l = (a, l1)"
  shows "lim_inv l1 \<and> same_settings l l1 \<and> map_of (clients l1) key = Some \<lparr>cb_limiter = a, lastSeen = now\<rparr>
    \<and> buckets l1 ! a = (case lim_view l key of Some (b, _) \<Rightarrow> b | None \<Rightarrow> rate_NewLimiter lib (rps l) (burst l))
    \<and> (\<forall>k. k \<noteq> key \<longrightarrow> lim_view l1 k = lim_view l k)"
proof (cases rule: bucket_cases [of l key lib now])
  case (known c)
  with assms addr_ok_seen [of "map_of (clients l)" _ key c "c\<lparr>lastSeen := now\<rparr>"] show ?thesis
    by (auto simp: lim_inv_def lim_view_def same_settings_def)
next
  case fresh
  have "lim_view l1 k = lim_view l k" if "k \<noteq> key" for k
    using that fresh assms addr_ok_less [of "map_of (clients l)" "length (buckets l)" k]
    by (cases "map_of (clients l) k") (auto simp: lim_view_def lim_inv_def nth_append)
  with fresh assms show ?thesis
    by (auto simp: lim_inv_def lim_view_def same_settings_def addr_ok_fresh)
qed

lemma lim_view_set_bucket:
  assumes "lim_inv l" and "map_of (clients l) key = Some c"
  shows "lim_inv (l\<lparr>buckets := (buckets l)[cb_limiter c := b]\<rparr>)"
    and "lim_view (l\<lparr>buckets := (buckets l)[cb_limiter c := b]\<rparr>) k = (if k = key then Some (b, lastSeen c) else lim_view l k)"
proof -
  note ok = assms(1) [unfolded lim_inv_def]
  from ok show "lim_inv (l\<lparr>buckets := (buckets l)[cb_limiter c := b]\<rparr>)" by (simp add: lim_inv_def)
  show "lim_view (l\<lparr>buckets := (buckets l)[cb_limiter c := b]\<rparr>) k = (if k = key then Some (b, lastSeen c) else lim_view l k)"
  proof (cases "map_of (clients l) k")
    case (Some c')
    then have "k \<noteq> key \<Longrightarrow> cb_limiter c' \<noteq> cb_limiter c" and "cb_limiter c < length (buckets l)"
      using ok assms(2) addr_ok_other addr_ok_less by blast+
    with Some assms(2) show ?thesis by (auto simp: lim_view_def)
  qed (use assms(2) in \<open>auto simp: lim_view_def\<close>)
qed

lemma Allow_spec:
  assumes "lim_inv l" and "in_memory_Allow lib clock key l = (r, l')"
    and "client_check lib (rate_NewLimiter lib (rps l) (burst l)) clock (lim_view l key) = (d, c)"
  shows "r = Inr d \<and> lim_inv l' \<and> same_settings l l' \<and> lim_view l' = (lim_view l)(key := c)"
proof -
  obtain t0 t1 t2 t3 where clock: "clock = (t0, t1, t2, t3)" by (cases clock)
  obtain a l1 where b: "bucket lib t0 key l = (a, l1)" by fastforce
  note spec = bucket_spec [OF assms(1) b]
  obtain v b' where v: "rate_Reserve lib t1 (buckets l1 ! a) = (v, b')" by fastforce
  have set: "lim_inv (l1\<lparr>buckets := (buckets l1)[a := x]\<rparr>)"
    "lim_view (l1\<lparr>buckets := (buckets l1)[a := x]\<rparr>) = (lim_view l)(key := Some (x, t0))"
    "same_settings l (l1\<lparr>buckets := (buckets l1)[a := x]\<rparr>)" for x
    using lim_view_set_bucket [of l1 key "\<lparr>cb_limiter = a, lastSeen = t0\<rparr>" x] spec
    by (auto simp: fun_eq_iff same_settings_def)
  from assms(3) spec v have "d = fst (check_bucket lib clock (buckets l1 ! a))" "c = Some (snd (check_bucket lib clock (buckets l1 ! a)), t0)"
    by (auto simp: clock Let_def split_beta)
  with assms(2) v set show ?thesis
    by (auto simp: in_memory_Allow_def clock b check_bucket_def Let_def split: if_splits)
qed

lemma map_of_filter_value:
  "keys_ok m \<Longrightarrow> map_of (filter (\<lambda>(k, v). P v) m) k = (case map_of m k of Some v \<Rightarrow> if P v then Some v else None | None \<Rightarrow> None)"
  by (induction m) (auto simp: keys_ok_def map_of_eq_None_iff image_iff split: option.split)

lemma evictIdle_inv: "lim_inv l \<Longrightarrow> lim_inv (evictIdle now l)"
proof -
  assume ok: "lim_inv l"
  let ?m = "filter (\<lambda>(key, c). \<not> lastSeen c < now - ttl l) (clients l)"
  from ok have "keys_ok ?m" by (auto simp: lim_inv_def keys_ok_def distinct_map intro: inj_on_subset)
  moreover from ok have "map_of ?m \<subseteq>\<^sub>m map_of (clients l)"
    by (auto simp: map_le_def dom_def map_of_filter_value lim_inv_def split: option.splits if_splits)
  ultimately show ?thesis using ok by (auto simp: lim_inv_def evictIdle_def Let_def elim: addr_ok_mono)
qed

lemma evictIdle_view: "lim_inv l \<Longrightarrow> lim_view (evictIdle now l) k = client_evict (ttl l) now (lim_view l k)"
  unfolding lim_inv_def lim_view_def evictIdle_def client_evict_def Let_def
  by (auto simp: map_of_filter_value split: option.split)

interpretation lim: per_client_limiter
  "\<lambda>l. lim_inv l \<and> rps l = r \<and> burst l = b \<and> ttl l = t" lim_view "in_memory_Allow lib" evictIdle
  "\<lambda>clock c. apfst Inr (client_check lib (rate_NewLimiter lib r b) clock c)" "client_evict t"
  for lib :: "('b, 'v) rate_lib" and r b t
proof
  fix l :: "'b in_memory" and clock key k now
  assume ok: "lim_inv l \<and> rps l = r \<and> burst l = b \<and> ttl l = t"
  obtain d c where c: "client_check lib (rate_NewLimiter lib r b) clock (lim_view l key) = (d, c)" by fastforce
  obtain x l' where a: "in_memory_Allow lib clock key l = (x, l')" by fastforce
  from Allow_spec [OF _ a] ok c have "x = Inr d" "lim_inv l'" "same_settings l l'" "lim_view l' = (lim_view l)(key := c)" by blast+
  then show "lim_inv (snd (in_memory_Allow lib clock key l)) \<and> rps (snd (in_memory_Allow lib clock key l)) = r
      \<and> burst (snd (in_memory_Allow lib clock key l)) = b \<and> ttl (snd (in_memory_Allow lib clock key l)) = t"
    and "fst (in_memory_Allow lib clock key l) = fst (apfst Inr (client_check lib (rate_NewLimiter lib r b) clock (lim_view l key)))"
    and "lim_view (snd (in_memory_Allow lib clock key l)) k =
      (if k = key then snd (apfst Inr (client_check lib (rate_NewLimiter lib r b) clock (lim_view l key))) else lim_view l k)"
    using ok a by (simp_all add: same_settings_def c del: client_check.simps)
  show "lim_inv (evictIdle now l) \<and> rps (evictIdle now l) = r \<and> burst (evictIdle now l) = b \<and> ttl (evictIdle now l) = t"
    using ok evictIdle_inv by (auto simp: evictIdle_def Let_def)
  show "lim_view (evictIdle now l) k = client_evict t now (lim_view l k)"
    using ok evictIdle_view by blast
qed

text \<open>The calls a limiter receives over its life, in any order.\<close>

datatype lim_call = CallAllow check_clock string | CallStop | CallEvict time

fun lim_exec :: "('b, 'v) rate_lib \<Rightarrow> lim_call \<Rightarrow> 'b in_memory \<Rightarrow> 'b in_memory" where
  "lim_exec lib (CallAllow clock key) l = snd (in_memory_Allow lib clock key l)"
| "lim_exec lib CallStop l = Stop l"
| "lim_exec lib (CallEvict now) l = evictIdle now l"

lemma Allow_keeps: "lim_inv l \<Longrightarrow> lim_inv (snd (in_memory_Allow lib clock key l)) \<and> same_settings l (snd (in_memory_Allow lib clock key l))"
  using Allow_spec [of l lib clock key "fst (in_memory_Allow lib clock key l)" "snd (in_memory_Allow lib clock key l)"]
  by (metis prod.collapse)

lemma lim_exec_inv:
  assumes "lim_inv l"
  shows "lim_inv (lim_exec lib c l) \<and> ttl (lim_exec lib c l) = ttl l \<and> stopped (lim_exec lib c l) = (stopped l \<or> c = CallStop)"
proof (cases c)
  case (CallAllow clock key)
  with Allow_keeps [OF assms, of lib clock key] show ?thesis by (auto simp: same_settings_def)
next
  case CallStop
  with assms show ?thesis by (auto simp: Stop_def lim_inv_def)
next
  case (CallEvict now)
  with assms evictIdle_inv [OF assms, of now] show ?thesis by (auto simp: evictIdle_def Let_def)
qed

lemma lim_exec_fold:
  "lim_inv l \<Longrightarrow> lim_inv (fold (lim_exec lib) cs l) \<and> ttl (fold (lim_exec lib) cs l) = ttl l
     \<and> stopped (fold (lim_exec lib) cs l) = (stopped l \<or> CallStop \<in> set cs)"
proof (induction cs arbitrary: l)
  case (Cons c cs)
  from Cons.IH [of "lim_exec lib c l"] lim_exec_inv [OF Cons.prems, of lib c] show ?case by auto
qed simp

inductive_cases janitor_exitE: "janitor (True, l) (False, l')"

lemma retry_seconds_least:
  assumes "ieee_double fl" and "0 < d" and "d \<le> 2 ^ 22 * Second"
  shows "d \<le> retry_seconds fl d * Second \<and> (retry_seconds fl d - 1) * Second < d"
proof (cases "d mod Second = 0")
  case True
  have q: "0 \<le> d div Second" "d div Second \<le> 2 ^ 22" using assms(2,3) by (auto simp: Second_def)
  have ex: "\<bar>n\<bar> \<le> 2 ^ 53 \<Longrightarrow> fl (of_int n) = of_int n" for n using assms(1) by (simp add: ieee_double_def)
  from ex [of 0] have "fl 0 = 0" by simp
  with True ex [of "d div Second"] q have "Seconds fl d = of_int (d div Second)" by (simp add: Seconds_def)
  then show ?thesis using True assms(2) by (auto simp: retry_seconds_def Second_def)
next
  case False
  from Seconds_between [OF assms(1) _ assms(3) False] assms(2)
  have "retry_seconds fl d = d div Second + 1" unfolding retry_seconds_def by (intro ceiling_unique) auto
  with div_bracket [of Second d] False show ?thesis by (simp add: Second_def)
qed

text \<open>A limiter for the examples: a bucket is a number of tokens, and there is no refill.\<close>

definition count_lib :: "(int, bool) rate_lib" where
  "count_lib = \<lparr>rate_NewLimiter = (\<lambda>r b. b), rate_Reserve = (\<lambda>t n. (n > 0, n - 1)), rate_OK = (\<lambda>_. True),
     rate_DelayFrom = (\<lambda>granted t. if granted then 0 else 1500000000), rate_CancelAt = (\<lambda>granted t n. n + 1)\<rparr>"

text \<open>An in-process limiter as the port: the limiter is a part of the world.\<close>

definition world_limiter :: "('b, 'v) rate_lib \<Rightarrow> check_clock \<Rightarrow> ('b in_memory \<times> 'w) limiter" where
  "world_limiter lib clock key w = (case in_memory_Allow lib clock key (fst w) of (d, l) \<Rightarrow> (d, (l, snd w)))"

section \<open>Properties\<close>


text \<open>
  C27. A client the janitor dropped starts over: when it was last seen more than the TTL before a tick,
  its next check is decided on a brand-new bucket, however many tokens the old one had.
\<close>

theorem idle_client_starts_over:
  assumes "lim_inv l" and "lim_view l key = Some (old, seen)" and "seen < now - ttl l"
  shows "fst (in_memory_Allow lib clock key (evictIdle now l))
     = Inr (fst (check_bucket lib clock (rate_NewLimiter lib (rps l) (burst l))))"
proof -
  have ok: "lim_inv l \<and> rps l = rps l \<and> burst l = burst l \<and> ttl l = ttl l" using assms(1) by simp
  have "lim_view (evictIdle now l) key = None" using lim.evict_view [OF ok, of now key] assms(2,3) by (simp add: client_evict_def)
  with lim.check_decision [OF lim.evict_inv [OF ok], of lib clock key now] show ?thesis by (simp add: Let_def split_beta)
qed

theorem idle_client_starts_over_witness:
  "let l = snd (in_memory_Allow count_lib (0, 0, 0, 0) ''k'' (NewInMemory (Fin 1) 1 0)) in
     Allowed (projr (fst (in_memory_Allow count_lib (1, 1, 1, 1) ''k'' l))) = False
   \<and> Allowed (projr (fst (in_memory_Allow count_lib (1, 1, 1, 1) ''k'' (evictIdle 100000000000 l)))) = True"
proof -
  let ?l = "snd (in_memory_Allow count_lib (0, 0, 0, 0) ''k'' (NewInMemory (Fin 1) 1 0))"
  have l: "?l = \<lparr>rps = Fin 1, burst = 1, ttl = Minute, clients = [(''k'', \<lparr>cb_limiter = 0, lastSeen = 0\<rparr>)], buckets = [0], stopped = False, stop_closed = 0\<rparr>"
    by (simp add: in_memory_Allow_def bucket_def NewInMemory_def count_lib_def Let_def go_defs)
  have "lim_inv ?l" "lim_view ?l ''k'' = Some (0, 0)" "0 < 100000000000 - ttl ?l"
    unfolding l by (simp_all add: lim_inv_def addr_ok_def keys_ok_def lim_view_def go_defs)
  from idle_client_starts_over [OF this, of count_lib "(1, 1, 1, 1)"] show ?thesis
    unfolding Let_def l by (simp add: in_memory_Allow_def bucket_def check_bucket_def count_lib_def)
qed

text \<open>
  C25. Over any sequence of calls the limiter keeps its invariant: one bucket per key at an address of
  its own, an eviction interval of at least a minute, and a stop channel that is closed once if \<open>Stop\<close>
  was ever called and never twice, after which the janitor can leave its loop, and only then.
\<close>

theorem limiter_life:
  "lim_inv (fold (lim_exec lib) calls (NewInMemory r b idle))
   \<and> Minute \<le> ttl (fold (lim_exec lib) calls (NewInMemory r b idle))
   \<and> stop_closed (fold (lim_exec lib) calls (NewInMemory r b idle)) = (if CallStop \<in> set calls then 1 else 0)
   \<and> ((\<exists>l'. janitor (True, fold (lim_exec lib) calls (NewInMemory r b idle)) (False, l')) \<longleftrightarrow> CallStop \<in> set calls)"
proof -
  let ?l = "fold (lim_exec lib) calls (NewInMemory r b idle)"
  have "lim_inv ?l" and st: "stopped ?l = (CallStop \<in> set calls)"
    using lim_exec_fold [of "NewInMemory r b idle" lib calls] by (simp_all add: NewInMemory_def Let_def lim_inv_def addr_ok_def keys_ok_def)
  moreover from this have "stop_closed ?l = (if CallStop \<in> set calls then 1 else 0)" "Minute \<le> ttl ?l"
    by (auto simp: lim_inv_def minIdleTTL_def)
  moreover have "(\<exists>l'. janitor (True, ?l) (False, l')) \<longleftrightarrow> 0 < stop_closed ?l"
    by (auto intro: janitor_stop elim: janitor_exitE)
  ultimately show ?thesis by simp
qed



text \<open>
  C26. For every delay up to \<open>2\<^sup>2\<^sup>2\<close> seconds (48 days) the \<open>Retry-After\<close> header is the least whole number of
  seconds that is not before the token is available, float64 rounding included.
\<close>

theorem retry_after_least:
  assumes "ieee_double fl" and "0 < d" and "d \<le> 2 ^ 22 * Second"
  shows "d \<le> retry_seconds fl d * Second \<and> (\<forall>n. d \<le> n * Second \<longrightarrow> retry_seconds fl d \<le> n)"
proof -
  note least = retry_seconds_least [OF assms]
  have "retry_seconds fl d \<le> n" if "d \<le> n * Second" for n
  proof -
    from least that have "(retry_seconds fl d - 1) * Second < n * Second" by linarith
    then show ?thesis by (simp add: Second_def)
  qed
  with least show ?thesis by blast
qed

theorem retry_after_least_witness: "1500000000 \<le> retry_seconds id 1500000000 * Second \<and> retry_seconds id 1500000000 \<le> 2"
proof -
  have "ieee_double id" by (simp add: ieee_double_def mono_def)
  from retry_after_least [OF this, of 1500000000] show ?thesis by (simp add: Second_def)
qed

end
