(* ===== verification/HttpAdapter.thy ===== *)
theory HttpAdapter
  imports HttpMiddleware Observability RateLimit
begin

text \<open>
  The generic HTTP transport, \<open>internal/adapter/http\<close>: the health endpoints (\<open>health.go\<close>), the Huma API
  and the server-less export (\<open>api.go\<close>), the metrics handler (\<open>metrics.go\<close>) and the router with its
  middleware stack and its registration order (\<open>router.go\<close>).

  chi's route matching, Huma's reading of a request and writing of a reply, Huma's documentation routes,
  go-chi/cors, promhttp and otelhttp are the parameters \<open>http_libs\<close>.
\<close>

section \<open>Health (health.go)\<close>

definition statusKey :: string where [go_defs]: "statusKey = ''status''"
definition statusOK :: string where [go_defs]: "statusOK = ''ok''"
definition statusReady :: string where [go_defs]: "statusReady = ''ready''"
definition statusUnavailable :: string where [go_defs]: "statusUnavailable = ''unavailable''"

record 'w readiness_check =
  rc_Name :: string
  rc_Check :: "request_ctx \<Rightarrow> 'w world \<Rightarrow> go_error option \<times> 'w world"

text \<open>A JSON object with string values; \<open>encoding/json\<close> writes a Go map in the order of its keys.\<close>

fun json_fields :: "(string \<times> string) list \<Rightarrow> string" where
  "json_fields [] = []"
| "json_fields [(k, v)] = json_string k @ CHR '':'' # v"
| "json_fields ((k, v) # f # fs) = json_string k @ CHR '':'' # v @ CHR '','' # json_fields (f # fs)"

definition json_object :: "(string \<times> string) list \<Rightarrow> string" where
  "json_object fs = CHR 0x7B # json_fields fs @ [CHR 0x7D]"

definition json_string_map :: "(string \<times> string) list \<Rightarrow> string" where
  "json_string_map m = json_object (map (\<lambda>(k, v). (k, json_string v)) (sort_key fst m))"

definition writeJSON :: "nat \<Rightarrow> string \<Rightarrow> response \<Rightarrow> response" where
  "writeJSON status doc rs =
     Write_body (doc @ [CHR 0x0A]) (WriteHeader status (SetHeader ''Content-Type'' ''application/json'' rs))"

definition handleHealthz :: "'w http_handler" where
  "handleHealthz r rs w = (Returned, writeJSON 200 (json_string_map [(statusKey, statusOK)]) rs, w)"

text \<open>The loop over the checks, with \<open>results\<close> and \<open>ready\<close> as its accumulators.\<close>

fun run_checks :: "'w readiness_check list \<Rightarrow> request_ctx \<Rightarrow> (string \<times> string) list \<Rightarrow> bool \<Rightarrow> 'w world
    \<Rightarrow> (string \<times> string) list \<times> bool \<times> 'w world" where
  "run_checks [] ctx results ready w = (results, ready, w)"
| "run_checks (check # checks) ctx results ready w =
     (case rc_Check check ctx w of
        (Some e, w') \<Rightarrow> run_checks checks ctx (aput (rc_Name check) statusUnavailable results) False w'
      | (None, w') \<Rightarrow> run_checks checks ctx (aput (rc_Name check) statusOK results) ready w')"

definition readyz_json :: "string \<Rightarrow> (string \<times> string) list \<Rightarrow> string" where
  "readyz_json overall results = json_object [(''status'', json_string overall), (''checks'', json_string_map results)]"

definition handleReadyz :: "'w readiness_check list \<Rightarrow> 'w http_handler" where
  "handleReadyz checks r rs w =
     (case run_checks checks (r_Context r) [] True w of
        (results, ready, w') \<Rightarrow>
          (let (status, overall) = (if \<not> ready then (503, statusUnavailable) else (200, statusReady))
           in (Returned, writeJSON status (readyz_json overall results) rs, w')))"

section \<open>The Huma API (api.go)\<close>

definition apiTitle :: string where [go_defs]: "apiTitle = ''template-go-api''"

text \<open>
  The parts of a Huma API the program changes: the middleware stack, the registered operations, each with
  the stack as it was when it was registered, and the OpenAPI document.
\<close>

record ('w, 'r) huma_route =
  hr_op :: operation
  hr_stack :: "('w world, 'r) middleware list"
  hr_handler :: "('w world, 'r) handler"

record ('w, 'r) huma_api =
  api_title :: string
  api_version :: string
  api_stack :: "('w world, 'r) middleware list"
  api_routes :: "('w, 'r) huma_route list"
  api_doc :: openapi_doc

type_synonym ('w, 'r) api_hook = "('w, 'r) huma_api \<Rightarrow> ('w, 'r) huma_api"

definition NewAPI :: "string \<Rightarrow> ('w, 'r) huma_api" where
  "NewAPI version =
     \<lparr>api_title = apiTitle, api_version = version, api_stack = [], api_routes = [], api_doc = \<lparr>doc_paths = [], doc_schemes = None\<rparr>\<rparr>"

definition set_stack :: "(('w world, 'r) middleware list \<Rightarrow> ('w world, 'r) middleware list) \<Rightarrow> ('w, 'r) api_hook" where
  "set_stack f api = api\<lparr>api_stack := f (api_stack api)\<rparr>"

text \<open>\<open>huma.Register\<close>, through a group with the path prefix \<open>prefix\<close>; one path item per operation.\<close>

definition huma_Register :: "string \<Rightarrow> operation \<Rightarrow> ('w world, 'r) handler \<Rightarrow> ('w, 'r) api_hook" where
  "huma_Register prefix oper h api =
     (let oper' = oper\<lparr>op_Path := prefix @ op_Path oper\<rparr>
      in api\<lparr>api_routes := api_routes api @ [\<lparr>hr_op = oper', hr_stack = api_stack api, hr_handler = h\<rparr>],
             api_doc := (api_doc api)\<lparr>doc_paths := doc_paths (api_doc api) @ [[Some oper']]\<rparr>\<rparr>)"

fun register_all :: "string \<Rightarrow> (operation \<times> ('w world, 'r) handler) list \<Rightarrow> ('w, 'r) api_hook" where
  "register_all prefix [] api = api"
| "register_all prefix ((oper, h) # ops) api = register_all prefix ops (huma_Register prefix oper h api)"

definition apply_hook :: "('w, 'r) api_hook option \<Rightarrow> ('w, 'r) api_hook" where
  "apply_hook hook api = (case hook of None \<Rightarrow> api | Some f \<Rightarrow> f api)"

text \<open>\<open>DowngradeYAML\<close> is Huma's.\<close>

definition SpecYAML :: "(openapi_doc \<Rightarrow> string result) \<Rightarrow> string \<Rightarrow> ('w, 'r) api_hook option \<Rightarrow> ('w, 'r) api_hook option \<Rightarrow> string result" where
  "SpecYAML DowngradeYAML version register finalize =
     (let api = apply_hook finalize (apply_hook register (NewAPI version)) in
      case DowngradeYAML (api_doc api) of
        Inl e \<Rightarrow> Inl (Errorf ''downgrade openapi spec to yaml: %w'' [] e)
      | Inr spec \<Rightarrow> Inr spec)"

section \<open>The router (router.go)\<close>

definition pathHealthz :: string where [go_defs]: "pathHealthz = ''/healthz''"
definition pathReadyz :: string where [go_defs]: "pathReadyz = ''/readyz''"
definition pathMetrics :: string where [go_defs]: "pathMetrics = ''/metrics''"

text \<open>A route of the mux: a method, or every method, a pattern, and what serves it with the path parameters.\<close>

record 'w mux_route =
  mr_method :: "string option"
  mr_pattern :: string
  mr_serve :: "(string \<times> string) list \<Rightarrow> 'w http_handler"

datatype chi_match = ChiFound nat "(string \<times> string) list" | ChiMethodNotAllowed | ChiNotFound

record ('w, 'r) http_libs =
  chi :: chi_lib
  chi_find :: "(string option \<times> string) list \<Rightarrow> string \<Rightarrow> string \<Rightarrow> chi_match"
  huma_context :: "http_request \<Rightarrow> operation \<Rightarrow> (string \<times> string) list \<Rightarrow> huma_ctx"
  huma_write :: "'r reply \<Rightarrow> response \<Rightarrow> response"
  huma_docs :: "('w, 'r) huma_api \<Rightarrow> 'w mux_route list"
  cors_Handler :: "cors_options \<Rightarrow> 'w http_middleware"
  prom_Handler :: "'w http_handler"
  otel_NewHandler :: "(http_request \<Rightarrow> bool) \<Rightarrow> 'w http_handler \<Rightarrow> 'w http_handler"
  spans :: "'w world span_lib"

definition route_keys :: "'w mux_route list \<Rightarrow> (string option \<times> string) list" where
  "route_keys routes = map (\<lambda>m. (mr_method m, mr_pattern m)) routes"

text \<open>How Huma serves one operation: the stack of its registration, then the handler, then the reply.\<close>

definition serve_operation :: "('w, 'r) http_libs \<Rightarrow> ('w, 'r) huma_route \<Rightarrow> (string \<times> string) list \<Rightarrow> 'w http_handler" where
  "serve_operation libs hr params r rs w =
     (case run_chain (hr_stack hr) (hr_handler hr) (huma_context libs r (hr_op hr) params) w of
        (Panicked, w') \<Rightarrow> (Panicking (PanicValue ''nil pointer dereference''), rs, w')
      | (reply, w') \<Rightarrow> (Returned, huma_write libs reply rs, w'))"

definition api_mux_routes :: "('w, 'r) http_libs \<Rightarrow> ('w, 'r) huma_api \<Rightarrow> 'w mux_route list" where
  "api_mux_routes libs api =
     map (\<lambda>hr. \<lparr>mr_method = Some (op_Method (hr_op hr)), mr_pattern = op_Path (hr_op hr), mr_serve = serve_operation libs hr\<rparr>) (api_routes api)"

record ('w, 'r) router_deps =
  rd_Logger :: logger
  ServeMetricsEndpoint :: bool
  rd_Version :: string
  rd_RequestTimeout :: duration
  rd_CORSAllowedOrigins :: "string list"
  rd_TrustedProxyHeader :: string
  Readiness :: "'w readiness_check list"
  rd_Register :: "('w, 'r) api_hook option"
  Tracing :: bool
  InstallRateLimit :: "('w, 'r) api_hook option"
  InstallAuthz :: "('w, 'r) api_hook option"
  FinalizeAuthz :: "('w, 'r) api_hook option"

definition traceableRequest :: "http_request \<Rightarrow> bool" where
  "traceableRequest r = (if r_Path r \<in> {pathHealthz, pathReadyz, pathMetrics} then False else True)"

definition mountInfra :: "'w http_handler \<Rightarrow> 'w readiness_check list \<Rightarrow> bool \<Rightarrow> 'w mux_route list \<Rightarrow> 'w mux_route list" where
  "mountInfra prom readiness serveMetrics routes =
     (let routes1 = routes @
            [\<lparr>mr_method = Some ''GET'', mr_pattern = pathHealthz, mr_serve = (\<lambda>_. handleHealthz)\<rparr>,
             \<lparr>mr_method = Some ''GET'', mr_pattern = pathReadyz, mr_serve = (\<lambda>_. handleReadyz readiness)\<rparr>]
      in if serveMetrics then routes1 @ [\<lparr>mr_method = None, mr_pattern = pathMetrics, mr_serve = (\<lambda>_. prom)\<rparr>] else routes1)"

definition probe_methods :: "string list" where
  "probe_methods = [''GET'', ''HEAD'', ''POST'', ''PUT'', ''PATCH'', ''DELETE'', ''OPTIONS'']"

fun strings_Join :: "string list \<Rightarrow> string \<Rightarrow> string" where
  "strings_Join [] sep = []"
| "strings_Join [x] sep = x"
| "strings_Join (x # y # xs) sep = x @ sep @ strings_Join (y # xs) sep"

definition chi_Match :: "('w, 'r) http_libs \<Rightarrow> 'w mux_route list \<Rightarrow> string \<Rightarrow> string \<Rightarrow> bool" where
  "chi_Match libs routes m path = (case chi_find libs (route_keys routes) m path of ChiFound _ _ \<Rightarrow> True | _ \<Rightarrow> False)"

definition allowedMethods :: "('w, 'r) http_libs \<Rightarrow> 'w mux_route list \<Rightarrow> string \<Rightarrow> string" where
  "allowedMethods libs routes path = strings_Join (filter (\<lambda>m. chi_Match libs routes m path) probe_methods) '', ''"

definition notFound :: "'w http_handler" where
  "notFound r rs w = (Returned, problem_Write 404 ''the requested resource was not found'' rs, w)"

definition methodNotAllowed :: "('w, 'r) http_libs \<Rightarrow> 'w mux_route list \<Rightarrow> 'w http_handler" where
  "methodNotAllowed libs routes r rs w =
     (let allow = allowedMethods libs routes (r_Path r);
          rs1 = (if allow \<noteq> [] then SetHeader ''Allow'' allow rs else rs)
      in (Returned, problem_Write 405 ''the method is not allowed for this resource'' rs1, w))"

text \<open>The end of the middleware chain: chi's dispatch.\<close>

definition dispatch :: "('w, 'r) http_libs \<Rightarrow> 'w mux_route list \<Rightarrow> 'w http_handler" where
  "dispatch libs routes r rs w =
     (case chi_find libs (route_keys routes) (r_Method r) (r_Path r) of
        ChiFound i params \<Rightarrow> mr_serve (routes ! i) params r rs w
      | ChiMethodNotAllowed \<Rightarrow> methodNotAllowed libs routes r rs w
      | ChiNotFound \<Rightarrow> notFound r rs w)"

definition matched_pattern :: "('w, 'r) http_libs \<Rightarrow> 'w mux_route list \<Rightarrow> http_request \<Rightarrow> string option" where
  "matched_pattern libs routes r =
     (case chi_find libs (route_keys routes) (r_Method r) (r_Path r) of
        ChiFound i _ \<Rightarrow> Some (mr_pattern (routes ! i))
      | _ \<Rightarrow> None)"

text \<open>The API: each Huma middleware is installed before the operations are registered.\<close>

definition build_api :: "('w, 'r) http_libs \<Rightarrow> ('w, 'r) router_deps \<Rightarrow> ('w, 'r) huma_api" where
  "build_api libs deps =
     (let api0 = NewAPI (rd_Version deps);
          api1 = (if Tracing deps then set_stack (\<lambda>st. st @ [TraceSpanNamer (spans libs)]) api0 else api0);
          api2 = apply_hook (InstallRateLimit deps) api1;
          api3 = apply_hook (InstallAuthz deps) api2;
          api4 = apply_hook (rd_Register deps) api3
      in apply_hook (FinalizeAuthz deps) api4)"

definition router_routes :: "('w, 'r) http_libs \<Rightarrow> ('w, 'r) router_deps \<Rightarrow> 'w mux_route list" where
  "router_routes libs deps =
     (let api = build_api libs deps
      in mountInfra (prom_Handler libs) (Readiness deps) (ServeMetricsEndpoint deps) (huma_docs libs api @ api_mux_routes libs api))"

definition core_stack :: "('w, 'r) http_libs \<Rightarrow> ('w, 'r) router_deps \<Rightarrow> 'w http_middleware list" where
  "core_stack libs deps =
     [ClientIP (chi libs) (rd_TrustedProxyHeader deps),
      RequestID (chi libs),
      Recoverer (rd_Logger deps),
      RequestLogger (rd_Logger deps)]
     @ (if rd_CORSAllowedOrigins deps \<noteq> [] then [CORS (cors_Handler libs) (rd_CORSAllowedOrigins deps)] else [])
     @ [Metrics_Middleware (matched_pattern libs (router_routes libs deps)),
        Timeout (rd_RequestTimeout deps)]"

definition NewRouter :: "('w, 'r) http_libs \<Rightarrow> ('w, 'r) router_deps \<Rightarrow> 'w http_handler" where
  "NewRouter libs deps =
     (let mux = use_all (core_stack libs deps) (dispatch libs (router_routes libs deps))
      in if Tracing deps then otel_NewHandler libs traceableRequest mux else mux)"

section \<open>The metrics listener (metrics.go)\<close>

text \<open>\<open>http.ServeMux\<close> with one exact pattern; what it makes of other paths is the parameter \<open>other\<close>.\<close>

definition NewMetricsHandler :: "'w http_handler \<Rightarrow> 'w http_handler \<Rightarrow> 'w http_handler" where
  "NewMetricsHandler other prom r rs w = (if r_Path r = ''/metrics'' then prom r rs w else other r rs w)"

section \<open>Lemmas\<close>

text \<open>The request as the dispatch sees it: client IP, request id, scoped logger and deadline on its context.\<close>

definition client_ip :: "('w, 'r) http_libs \<Rightarrow> ('w, 'r) router_deps \<Rightarrow> http_request \<Rightarrow> string" where
  "client_ip libs deps r =
     (if rd_TrustedProxyHeader deps \<noteq> [] then ClientIPFromHeader (chi libs) (rd_TrustedProxyHeader deps) r
      else ClientIPFromRemoteAddr (chi libs) r)"

definition edge_request :: "('w, 'r) http_libs \<Rightarrow> ('w, 'r) router_deps \<Rightarrow> http_request \<Rightarrow> http_request" where
  "edge_request libs deps r =
     (let r1 = WithContext r ((r_Context r)\<lparr>ctx_clientIP := client_ip libs deps r\<rparr>)
      in WithContext r1 ((r_Context r1)\<lparr>ctx_reqID := chi_RequestID (chi libs) r1\<rparr>))"

definition inner_request :: "('w, 'r) http_libs \<Rightarrow> ('w, 'r) router_deps \<Rightarrow> time \<Rightarrow> http_request \<Rightarrow> http_request" where
  "inner_request libs deps now r =
     (let r2 = edge_request libs deps r
      in WithContext r2 (WithTimeout now (rd_RequestTimeout deps) (WithLogger (r_Context r2) (With_request_id (ctx_reqID (r_Context r2)) (rd_Logger deps)))))"

lemma edge_request_simps [simp]:
  "r_Method (edge_request libs deps r) = r_Method r" "r_Path (edge_request libs deps r) = r_Path r"
  "r_Header (edge_request libs deps r) = r_Header r"
  "From (r_Context (edge_request libs deps r)) = From (r_Context r)"
  "ctx_clientIP (r_Context (edge_request libs deps r)) = client_ip libs deps r"
  by (simp_all add: edge_request_def WithContext_def From_def Let_def)

lemma inner_request_simps [simp]:
  "r_Method (inner_request libs deps now r) = r_Method r" "r_Path (inner_request libs deps now r) = r_Path r"
  "r_Header (inner_request libs deps now r) = r_Header r"
  "ctx_clientIP (r_Context (inner_request libs deps now r)) = client_ip libs deps r"
  by (simp_all add: inner_request_def WithContext_def WithTimeout_def WithLogger_def Let_def)

lemma NewRouter_edge:
  assumes "\<not> Tracing deps" and "rd_CORSAllowedOrigins deps = []"
  shows "NewRouter libs deps r rs w =
     Recoverer (rd_Logger deps)
       (RequestLogger (rd_Logger deps)
         (Metrics_Middleware (matched_pattern libs (router_routes libs deps))
           (Timeout (rd_RequestTimeout deps) (dispatch libs (router_routes libs deps)))))
       (edge_request libs deps r) rs w"
  using assms
  by (auto simp: NewRouter_def core_stack_def ClientIP_def RequestID_def with_ctx_def edge_request_def client_ip_def Let_def)

text \<open>The reply once the request timeout had its say.\<close>

definition after_timeout :: "request_ctx \<Rightarrow> response \<Rightarrow> 'w world \<Rightarrow> response" where
  "after_timeout ctx rs w = (if deadline_exceeded ctx w then problem_Write 504 ''the request timed out'' rs else rs)"

definition route_labels :: "('w, 'r) http_libs \<Rightarrow> ('w, 'r) router_deps \<Rightarrow> http_request \<Rightarrow> string" where
  "route_labels libs deps r = routePattern (matched_pattern libs (router_routes libs deps)) r"

lemma routePattern_cong:
  "r_Method r = r_Method r' \<Longrightarrow> r_Path r = r_Path r' \<Longrightarrow> route_labels libs deps r = route_labels libs deps r'"
  by (simp add: route_labels_def routePattern_def matched_pattern_def)

lemma deadline_exceeded_frame [simp]: "deadline_exceeded ctx (add_inFlight d w) = deadline_exceeded ctx w"
  by (simp add: deadline_exceeded_def add_inFlight_def split: option.split)

lemma Timeout_inner:
  assumes "dispatch libs routes (inner_request libs deps (w_now w) r) rs w = (out, rs1, w1)"
    and "r2 = edge_request libs deps r"
  shows "Timeout (rd_RequestTimeout deps) (dispatch libs routes)
           (WithContext r2 (WithLogger (r_Context r2) (With_request_id (ctx_reqID (r_Context r2)) (rd_Logger deps)))) rs w
     = (out, after_timeout (r_Context (inner_request libs deps (w_now w) r)) rs1 w1, w1)"
  using assms by (simp add: Timeout_def inner_request_def after_timeout_def WithContext_def Let_def)

lemma w_now_add_inFlight [simp]: "w_now (add_inFlight d w) = w_now w"
  by (simp add: add_inFlight_def)

text \<open>The stack, outcome by outcome.\<close>

lemma NewRouter_outcome:
  assumes "\<not> Tracing deps" and "rd_CORSAllowedOrigins deps = []"
    and "dispatch libs (router_routes libs deps) (inner_request libs deps (w_now w) r) rs (add_inFlight 1 w) = (out, rs1, w1)"
    and "rs2 = after_timeout (r_Context (inner_request libs deps (w_now w) r)) rs1 w1"
    and "scope = ctx_reqID (r_Context (edge_request libs deps r))"
  shows "NewRouter libs deps r rs w =
     (case out of
        Returned \<Rightarrow>
          (Returned, rs2,
           log_to (With_request_id scope (rd_Logger deps)) LevelInfo ''http request''
             (access_entry r (client_ip libs deps r) (Status_of rs2) (length (rs_body rs2) - length (rs_body rs)) (w_now w1 - w_now w))
             (add_inFlight (- 1)
               (w1\<lparr>w_metrics := observe_request (normalizeMethod (r_Method r)) (route_labels libs deps r)
                     (Status_of rs2) (w_now w1 - w_now w) (w_metrics w1)\<rparr>)))
      | Panicking p \<Rightarrow>
          (if aborts p then (Panicking p, rs2, add_inFlight (- 1) w1)
           else (Returned, problem_Write 500 ''internal server error'' rs2,
                 log_to (case From (r_Context r) of Some scoped \<Rightarrow> scoped | None \<Rightarrow> rd_Logger deps) LevelError ''recovered from panic'' [(''panic'', LPanic p)]
                   (add_inFlight (- 1) w1))))"
proof -
  let ?r2 = "edge_request libs deps r"
  let ?r3 = "WithContext ?r2 (WithLogger (r_Context ?r2) (With_request_id (ctx_reqID (r_Context ?r2)) (rd_Logger deps)))"
  from assms(3) have "dispatch libs (router_routes libs deps) (inner_request libs deps (w_now (add_inFlight 1 w)) r) rs (add_inFlight 1 w) = (out, rs1, w1)"
    by simp
  from Timeout_inner [OF this refl] assms(4)
  have T: "Timeout (rd_RequestTimeout deps) (dispatch libs (router_routes libs deps)) ?r3 rs (add_inFlight 1 w) = (out, rs2, w1)" by simp
  have lab: "routePattern (matched_pattern libs (router_routes libs deps)) ?r3 = route_labels libs deps r"
    unfolding route_labels_def [symmetric] by (rule routePattern_cong) (simp_all add: WithContext_def)
  have entry: "access_entry ?r2 ip st n d = access_entry r ip st n d" for ip st n d by (simp add: access_entry_def)
  have meth: "r_Method ?r3 = r_Method r" by (simp add: WithContext_def)
  show ?thesis
    unfolding NewRouter_edge [OF assms(1,2)] Recoverer_def RequestLogger_def Metrics_Middleware_def Let_def T
    by (simp add: assms(5) lab entry meth split: ending.split)
qed

text \<open>What the probes return, each run once and in order, whatever the others say.\<close>

fun probe_all :: "'w readiness_check list \<Rightarrow> request_ctx \<Rightarrow> 'w world \<Rightarrow> go_error option list \<times> 'w world" where
  "probe_all [] ctx w = ([], w)"
| "probe_all (check # checks) ctx w =
     (let (e, w1) = rc_Check check ctx w; (es, w2) = probe_all checks ctx w1 in (e # es, w2))"

definition check_status :: "go_error option \<Rightarrow> string" where
  "check_status e = (case e of None \<Rightarrow> statusOK | Some _ \<Rightarrow> statusUnavailable)"

lemma aput_new: "k \<notin> fst ` set m \<Longrightarrow> aput k v m = m @ [(k, v)]"
  by (induction m) auto

lemma run_checks_probe:
  assumes "distinct (map rc_Name checks)" and "fst ` set results \<inter> rc_Name ` set checks = {}"
  shows "run_checks checks ctx results ready w =
     (case probe_all checks ctx w of
        (es, w') \<Rightarrow> (results @ zip (map rc_Name checks) (map check_status es), ready \<and> (\<forall>e \<in> set es. e = None), w'))"
  using assms
proof (induction checks arbitrary: results ready w)
  case (Cons check checks)
  obtain e w1 where e: "rc_Check check ctx w = (e, w1)" by fastforce
  have "aput (rc_Name check) v results = results @ [(rc_Name check, v)]" for v
    using Cons.prems(2) by (intro aput_new) auto
  moreover have "fst ` set (results @ [(rc_Name check, v)]) \<inter> rc_Name ` set checks = {}" for v
    using Cons.prems by auto
  ultimately show ?case using Cons.IH Cons.prems(1) e
    by (cases e) (auto simp: check_status_def split_beta Let_def)
qed simp

lemma log_to_writes: "logs_at lg lv \<Longrightarrow> w_log (log_to lg lv msg attrs w) = w_log w @ [\<lparr>le_scope = lg_scope lg, le_level = lv, le_msg = msg, le_attrs = attrs\<rparr>]"
  by (simp add: log_to_def)

lemma add_inFlight_frame [simp]:
  "w_log (add_inFlight d w) = w_log w" "requests (w_metrics (add_inFlight d w)) = requests (w_metrics w)"
  "durations (w_metrics (add_inFlight d w)) = durations (w_metrics w)" "w_app (add_inFlight d w) = w_app w"
  by (simp_all add: add_inFlight_def)

lemma after_timeout_status:
  "client_status (after_timeout ctx rs w) =
     (case rs_committed rs of Some (s, _) \<Rightarrow> s | None \<Rightarrow> if deadline_exceeded ctx w then 504 else 200)"
  "rs_committed (after_timeout ctx rs w) = None \<longleftrightarrow> rs_committed rs = None \<and> \<not> deadline_exceeded ctx w"
  by (cases "deadline_exceeded ctx w"; simp add: after_timeout_def; simp add: client_status_def)
     (cases "deadline_exceeded ctx w"; simp add: after_timeout_def)

lemma problem_after_timeout:
  "client_status (problem_Write status detail (after_timeout ctx rs w)) =
     (case rs_committed rs of Some (s, _) \<Rightarrow> s | None \<Rightarrow> if deadline_exceeded ctx w then 504 else status)"
proof (cases "rs_committed (after_timeout ctx rs w)")
  case None
  with after_timeout_status(2) [of ctx rs w] show ?thesis by simp
next
  case (Some c)
  then have "client_status (problem_Write status detail (after_timeout ctx rs w)) = client_status (after_timeout ctx rs w)"
    by (cases c) (simp add: client_status_def [of "after_timeout ctx rs w"])
  with Some after_timeout_status [of ctx rs w] show ?thesis by (auto split: option.splits)
qed

section \<open>Properties\<close>

text \<open>
  C28. The contract of the middleware stack (no CORS, no tracing): unless the endpoint aborts with
  \<open>ErrAbortHandler\<close>, the server never sees a panic, and the client gets the status the endpoint
  committed, else 504 when the deadline passed first, else 200 or, after a panic, 500.  A request that
  returned is logged under its request id and counted under its route; one that panicked is only logged
  as a recovered panic, by the router's logger without the request id, and is not counted.
\<close>

theorem router_outcome:
  assumes "\<not> Tracing deps" and "rd_CORSAllowedOrigins deps = []"
    and "dispatch libs (router_routes libs deps) (inner_request libs deps (w_now w) r) empty_response (add_inFlight 1 w) = (out, rs1, w1)"
    and "\<forall>p. out = Panicking p \<longrightarrow> \<not> aborts p" and "logs_at (rd_Logger deps) LevelInfo" and "From (r_Context r) = None"
  shows "\<exists>rs' w' e. NewRouter libs deps r empty_response w = (Returned, rs', w')
    \<and> client_status rs' =
        (case rs_committed rs1 of
           Some (s, _) \<Rightarrow> s
         | None \<Rightarrow> if deadline_exceeded (r_Context (inner_request libs deps (w_now w) r)) w1 then 504 else if out = Returned then 200 else 500)
    \<and> w_log w' = w_log w1 @ [e]
    \<and> (if out = Returned
       then le_msg e = ''http request'' \<and> le_scope e = Some (ctx_reqID (r_Context (edge_request libs deps r)))
          \<and> durations (w_metrics w') = durations (w_metrics w1) @ [((normalizeMethod (r_Method r), route_labels libs deps r), w_now w1 - w_now w)]
       else le_msg e = ''recovered from panic'' \<and> le_scope e = lg_scope (rd_Logger deps)
          \<and> durations (w_metrics w') = durations (w_metrics w1) \<and> requests (w_metrics w') = requests (w_metrics w1))"
proof (cases out)
  case Returned
  show ?thesis
    unfolding NewRouter_outcome [OF assms(1-3) refl refl] Returned
    by (simp add: after_timeout_status(1) log_to_writes assms(5) observe_request_counts)
next
  case (Panicking p)
  with assms(4) have "\<not> aborts p" by simp
  have lv: "logs_at (rd_Logger deps) LevelError" using assms(5) by (rule logs_at_error)
  from \<open>\<not> aborts p\<close> show ?thesis
    unfolding NewRouter_outcome [OF assms(1-3) refl refl] Panicking
    by (simp add: problem_after_timeout log_to_writes lv assms(6) del: problem_Write_status)
qed

text \<open>Libraries for the examples: routes match exactly, and the metrics endpoint panics.\<close>

definition sample_libs :: "('w, 'r) http_libs" where
  "sample_libs =
     \<lparr>chi = \<lparr>ClientIPFromHeader = (\<lambda>h r. []), ClientIPFromRemoteAddr = r_RemoteAddr, chi_RequestID = (\<lambda>r. ''id-1'')\<rparr>,
      chi_find = (\<lambda>keys m p. if (None, p) \<in> set keys then ChiFound (length (takeWhile (\<lambda>k. k \<noteq> (None, p)) keys)) [] else ChiNotFound),
      huma_context = (\<lambda>r oper ps. \<lparr>hctx_headers = r_Header r, hctx_params = ps, hctx_Operation = Some oper, hctx_Context = r_Context r\<rparr>),
      huma_write = (\<lambda>reply rs. WriteHeader 200 rs), huma_docs = (\<lambda>_. []), cors_Handler = (\<lambda>_ h. h),
      prom_Handler = (\<lambda>r rs w. (Panicking (PanicValue ''boom''), rs, w)), otel_NewHandler = (\<lambda>_ h. h),
      spans = \<lparr>span_IsRecording = (\<lambda>_ _. False), span_Name = (\<lambda>_ _ w. w), span_HTTPRoute = (\<lambda>_ _ w. w)\<rparr>\<rparr>"

definition sample_deps :: "('w, 'r) router_deps" where
  "sample_deps =
     \<lparr>rd_Logger = \<lparr>lg_format = JSONHandler, lg_level = 0, lg_scope = None\<rparr>, ServeMetricsEndpoint = True, rd_Version = ''v1'', rd_RequestTimeout = 5,
      rd_CORSAllowedOrigins = [], rd_TrustedProxyHeader = [], Readiness = [], rd_Register = None, Tracing = False,
      InstallRateLimit = None, InstallAuthz = None, FinalizeAuthz = None\<rparr>"

theorem router_outcome_witness:
  "\<exists>rs' w'. NewRouter (sample_libs :: (unit, unit) http_libs) sample_deps (sample_request\<lparr>r_Path := ''/metrics''\<rparr>) empty_response sample_world = (Returned, rs', w')
     \<and> client_status rs' = 500 \<and> requests (w_metrics w') = []"
proof -
  let ?r = "sample_request\<lparr>r_Path := ''/metrics''\<rparr>"
  let ?in = "inner_request (sample_libs :: (unit, unit) http_libs) sample_deps (w_now sample_world) ?r"
  have d: "dispatch (sample_libs :: (unit, unit) http_libs) (router_routes sample_libs sample_deps) ?in empty_response (add_inFlight 1 sample_world)
      = (Panicking (PanicValue ''boom''), empty_response, add_inFlight 1 sample_world)"
    by (simp add: dispatch_def router_routes_def mountInfra_def build_api_def apply_hook_def api_mux_routes_def NewAPI_def
        sample_libs_def sample_deps_def route_keys_def go_defs)
  have "ctx_deadline (r_Context ?in) = Some 5"
    by (simp add: inner_request_def edge_request_def WithTimeout_def WithLogger_def WithContext_def sample_request_def sample_deps_def sample_world_def Let_def)
  then have "\<not> deadline_exceeded (r_Context ?in) (add_inFlight 1 sample_world)" by (simp add: deadline_exceeded_def) (simp add: sample_world_def)
  with router_outcome [OF _ _ d] show ?thesis
    by (auto simp: sample_deps_def aborts_def LevelInfo_def logs_at_def From_def sample_request_def empty_response_def sample_world_def NewMetrics_def)
qed

text \<open>
  C30. Readiness: every check is probed exactly once and in order, none is skipped after a failure, and
  the endpoint answers 200 with status \<open>ready\<close> if and only if all of them pass, otherwise 503 with
  status \<open>unavailable\<close>; the body names each check with its own result.
\<close>

theorem readyz_reports_every_check:
  assumes "distinct (map rc_Name checks)" and "probe_all checks (r_Context r) w = (es, w')"
  shows "handleReadyz checks r empty_response w =
     (Returned,
      (if \<forall>e \<in> set es. e = None
       then writeJSON 200 (readyz_json ''ready'' (zip (map rc_Name checks) (map check_status es))) empty_response
       else writeJSON 503 (readyz_json ''unavailable'' (zip (map rc_Name checks) (map check_status es))) empty_response), w')
    \<and> length es = length checks"
proof -
  have "length (fst (probe_all cs ctx v)) = length cs" for cs ctx v
    by (induction cs arbitrary: v) (auto simp: split_beta Let_def)
  with assms(2) have "length es = length checks" by (metis fst_conv)
  with assms(2) run_checks_probe [OF assms(1), of "[]" "r_Context r" True w] show ?thesis
    by (auto simp: handleReadyz_def Let_def statusReady_def statusUnavailable_def)
qed

theorem readyz_reports_every_check_witness:
  "let checks = [\<lparr>rc_Name = ''postgres'', rc_Check = (\<lambda>ctx w. (Some ErrAbortHandler, w))\<rparr>, \<lparr>rc_Name = ''cache'', rc_Check = (\<lambda>ctx w. (None, w))\<rparr>] in
     handleReadyz checks sample_request empty_response sample_world
       = (Returned, writeJSON 503 (readyz_json ''unavailable'' [(''postgres'', ''unavailable''), (''cache'', ''ok'')]) empty_response, sample_world)"
  using readyz_reports_every_check [of "[\<lparr>rc_Name = ''postgres'', rc_Check = (\<lambda>ctx w. (Some ErrAbortHandler, w))\<rparr>, \<lparr>rc_Name = ''cache'', rc_Check = (\<lambda>ctx w. (None, w))\<rparr>]"
      sample_request sample_world "[Some ErrAbortHandler, None]" sample_world]
  by (simp add: check_status_def statusOK_def statusUnavailable_def)

end
