(* ===== verification/Postgres.thy ===== *)
theory Postgres
  imports Observability
begin

text \<open>
  The shared PostgreSQL adapter, \<open>internal/adapter/postgres\<close>: opening the connection pool
  (\<open>postgres.go\<close>) and running the embedded migrations (\<open>migrate.go\<close>).

  pgx, goose and \<open>database/sql\<close> are the parameters \<open>pgx_lib\<close> and \<open>goose_lib\<close>; the model keeps which
  calls are made with which arguments, in which order, and what stays open.
\<close>

section \<open>What the process holds open\<close>

record resources =
  pools_open :: nat
  janitors :: nat
  otel :: otel_state

section \<open>Connecting (postgres.go)\<close>

record pg_config =
  pg_URL :: string
  pg_MaxConns :: int
  pg_Tracing :: bool

record pool_config =
  pc_MaxConns :: int
  pc_Tracer :: bool

record pgx_lib =
  pgxpool_ParseConfig :: "string \<Rightarrow> pool_config result"
  pgxpool_NewWithConfig :: "pool_config \<Rightarrow> go_error option"
  pgxpool_Ping :: "pool_config \<Rightarrow> go_error option"

text \<open>A pool is known by the configuration it was opened with.\<close>

definition Connect :: "pgx_lib \<Rightarrow> pg_config \<Rightarrow> resources \<Rightarrow> pool_config result \<times> resources" where
  "Connect lib cfg res =
     (case pgxpool_ParseConfig lib (pg_URL cfg) of
        Inl e \<Rightarrow> (Inl (Errorf ''parse database url: %w'' [] e), res)
      | Inr poolCfg0 \<Rightarrow>
          (let poolCfg1 = (if pg_MaxConns cfg > 0 then poolCfg0\<lparr>pc_MaxConns := pg_MaxConns cfg\<rparr> else poolCfg0);
               poolCfg = (if pg_Tracing cfg then poolCfg1\<lparr>pc_Tracer := True\<rparr> else poolCfg1)
           in case pgxpool_NewWithConfig lib poolCfg of
                Some e \<Rightarrow> (Inl (Errorf ''create connection pool: %w'' [] e), res)
              | None \<Rightarrow>
                  (let res1 = res\<lparr>pools_open := pools_open res + 1\<rparr> in
                   case pgxpool_Ping lib poolCfg of
                     Some e \<Rightarrow> (Inl (Errorf ''ping database: %w'' [] e), res1\<lparr>pools_open := pools_open res1 - 1\<rparr>)
                   | None \<Rightarrow> (Inr poolCfg, res1))))"

section \<open>Migrations (migrate.go, migrations.go)\<close>

definition dbDriver :: string where [go_defs]: "dbDriver = ''pgx''"
definition dialect :: string where [go_defs]: "dialect = ''postgres''"
definition migrationsDir :: string where [go_defs]: "migrationsDir = ''migrations''"

datatype migrate_event = OpenDB string string | SetBaseFS | SetDialect string | RunGoose string string "string list" | CloseDB

record goose_lib =
  sql_Open :: "string \<Rightarrow> string \<Rightarrow> go_error option"
  goose_SetDialect :: "string \<Rightarrow> go_error option"
  goose_Run :: "string \<Rightarrow> string \<Rightarrow> string list \<Rightarrow> go_error option"

text \<open>The events of a call; the deferred \<open>Close\<close> is the last on every path that opened the database.\<close>

definition Migrate :: "goose_lib \<Rightarrow> string \<Rightarrow> string \<Rightarrow> string list \<Rightarrow> go_error option \<times> migrate_event list" where
  "Migrate lib databaseURL command args =
     (case sql_Open lib dbDriver databaseURL of
        Some e \<Rightarrow> (Some (Errorf ''open database: %w'' [] e), [])
      | None \<Rightarrow>
          (let opened = [OpenDB dbDriver databaseURL, SetBaseFS] in
           case goose_SetDialect lib dialect of
             Some e \<Rightarrow> (Some (Errorf ''set goose dialect: %w'' [] e), opened @ [CloseDB])
           | None \<Rightarrow>
               (let ran = opened @ [SetDialect dialect, RunGoose command migrationsDir args] in
                case goose_Run lib command migrationsDir args of
                  Some e \<Rightarrow> (Some (Errorf ''goose %s: %w'' [command] e), ran @ [CloseDB])
                | None \<Rightarrow> (None, ran @ [CloseDB]))))"

section \<open>Lemmas\<close>

lemma Connect_accounts:
  "Connect lib cfg res = (r, res') \<Longrightarrow>
     res' = (case r of Inl _ \<Rightarrow> res | Inr _ \<Rightarrow> res\<lparr>pools_open := pools_open res + 1\<rparr>)"
  by (auto simp: Connect_def Let_def split: sum.splits option.splits)

lemma Connect_config:
  "Connect lib cfg res = (Inr p, res') \<Longrightarrow>
     (pg_MaxConns cfg > 0 \<longrightarrow> pc_MaxConns p = pg_MaxConns cfg) \<and> (pg_Tracing cfg \<longrightarrow> pc_Tracer p)"
  by (auto simp: Connect_def Let_def split: sum.splits option.splits)

lemma Migrate_closes:
  "Migrate lib url command args = (err, events) \<Longrightarrow>
     count_list events (OpenDB dbDriver url) = count_list events CloseDB \<and> (events = [] \<or> last events = CloseDB)"
  by (auto simp: Migrate_def Let_def split: option.splits)

end
