(* ===== verification/Config.thy ===== *)
theory Config
  imports GoStrings GoFloat
begin

text \<open>
  Configuration: \<open>internal/config/config.go\<close>.

  Viper resolves a key in layers: a value given on the command line or in the environment, else the
  default set with \<open>SetDefault\<close>.  A viper instance is therefore the given settings and the defaults.
  The typed getters convert a setting with \<open>spf13/cast\<close>, which is the parameter \<open>casts\<close>; the program
  relies on a setting that already has the type of the getter coming back unchanged (\<open>casts_ok\<close>).
\<close>

section \<open>Defaults\<close>

definition defaultAddr :: string where [go_defs]: "defaultAddr = '':8080''"
definition defaultMetricsAddr :: string where [go_defs]: "defaultMetricsAddr = '':9090''"
definition defaultReadTimeout :: duration where [go_defs]: "defaultReadTimeout = 5 * Second"
definition defaultReadHeaderTimeout :: duration where [go_defs]: "defaultReadHeaderTimeout = 5 * Second"
definition defaultWriteTimeout :: duration where [go_defs]: "defaultWriteTimeout = 10 * Second"
definition defaultIdleTimeout :: duration where [go_defs]: "defaultIdleTimeout = 120 * Second"
definition defaultRequestTimeout :: duration where [go_defs]: "defaultRequestTimeout = 15 * Second"
definition defaultShutdownGrace :: duration where [go_defs]: "defaultShutdownGrace = 15 * Second"
definition defaultLogLevel :: string where [go_defs]: "defaultLogLevel = ''info''"
definition defaultLogFormat :: string where [go_defs]: "defaultLogFormat = ''json''"
definition defaultDBMaxConns :: int where [go_defs]: "defaultDBMaxConns = 0"
definition defaultAuthzEnabled :: bool where [go_defs]: "defaultAuthzEnabled = True"
definition defaultRateLimitEnabled :: bool where [go_defs]: "defaultRateLimitEnabled = True"
definition defaultRateLimitRPS :: float64 where [go_defs]: "defaultRateLimitRPS = Fin 10"
definition defaultRateLimitBurst :: int where [go_defs]: "defaultRateLimitBurst = 20"
definition defaultTracingEnabled :: bool where [go_defs]: "defaultTracingEnabled = False"

record config =
  Addr :: string
  MetricsAddr :: string
  ReadTimeout :: duration
  ReadHeaderTimeout :: duration
  WriteTimeout :: duration
  IdleTimeout :: duration
  RequestTimeout :: duration
  ShutdownGrace :: duration
  LogLevel :: string
  LogFormat :: string
  CORSAllowedOrigins :: "string list"
  TrustedProxyHeader :: string
  DatabaseURL :: string
  DBMaxConns :: int
  AuthzEnabled :: bool
  AuthzPolicyDir :: string
  RateLimitEnabled :: bool
  RateLimitRPS :: float64
  RateLimitBurst :: int
  TracingEnabled :: bool

section \<open>Viper\<close>

datatype setting =
    SString string
  | SDuration duration
  | SStrings "string list"
  | SInt int
  | SFloat float64
  | SBool bool

record viper =
  vp_given :: "(string \<times> setting) list"
  vp_defaults :: "(string \<times> setting) list"

record casts =
  to_String :: "setting \<Rightarrow> string"
  to_Duration :: "setting \<Rightarrow> duration"
  to_Strings :: "setting \<Rightarrow> string list"
  to_Int :: "setting \<Rightarrow> int"
  to_Int32 :: "setting \<Rightarrow> int"
  to_Float :: "setting \<Rightarrow> float64"
  to_Bool :: "setting \<Rightarrow> bool"

definition casts_ok :: "casts \<Rightarrow> bool" where
  "casts_ok c \<longleftrightarrow> (\<forall>s. to_String c (SString s) = s) \<and> (\<forall>d. to_Duration c (SDuration d) = d)
     \<and> (\<forall>ss. to_Strings c (SStrings ss) = ss) \<and> (\<forall>i. to_Int c (SInt i) = i)
     \<and> (\<forall>i. - (2 ^ 31) \<le> i \<and> i < 2 ^ 31 \<longrightarrow> to_Int32 c (SInt i) = i)
     \<and> (\<forall>x. to_Float c (SFloat x) = x) \<and> (\<forall>b. to_Bool c (SBool b) = b)"

definition SetDefault :: "string \<Rightarrow> setting \<Rightarrow> viper \<Rightarrow> viper" where
  "SetDefault key v vp = vp\<lparr>vp_defaults := aput key v (vp_defaults vp)\<rparr>"

text \<open>A key that is set nowhere is a nil value, which every getter turns into the zero value of its type.\<close>

definition vp_find :: "viper \<Rightarrow> string \<Rightarrow> setting option" where
  "vp_find vp key = (case map_of (vp_given vp) key of Some v \<Rightarrow> Some v | None \<Rightarrow> map_of (vp_defaults vp) key)"

definition vp_get :: "(setting \<Rightarrow> 'a) \<Rightarrow> 'a \<Rightarrow> viper \<Rightarrow> string \<Rightarrow> 'a" where
  "vp_get convert zero vp key = (case vp_find vp key of Some v \<Rightarrow> convert v | None \<Rightarrow> zero)"

section \<open>Loading\<close>

text \<open>\<open>RegisterFlags\<close>: the flags with the defaults they document.\<close>

definition RegisterFlags :: "(string \<times> setting) list \<Rightarrow> (string \<times> setting) list" where
  "RegisterFlags flags = flags @
     [(''addr'', SString defaultAddr),
      (''metrics-addr'', SString defaultMetricsAddr),
      (''log-level'', SString defaultLogLevel),
      (''log-format'', SString defaultLogFormat),
      (''read-timeout'', SDuration defaultReadTimeout),
      (''read-header-timeout'', SDuration defaultReadHeaderTimeout),
      (''write-timeout'', SDuration defaultWriteTimeout),
      (''idle-timeout'', SDuration defaultIdleTimeout),
      (''request-timeout'', SDuration defaultRequestTimeout),
      (''shutdown-grace'', SDuration defaultShutdownGrace),
      (''cors-allowed-origins'', SStrings []),
      (''trusted-proxy-header'', SString []),
      (''database-url'', SString []),
      (''db-max-conns'', SInt defaultDBMaxConns),
      (''authz-enabled'', SBool defaultAuthzEnabled),
      (''authz-policy-dir'', SString []),
      (''rate-limit-enabled'', SBool defaultRateLimitEnabled),
      (''rate-limit-rps'', SFloat defaultRateLimitRPS),
      (''rate-limit-burst'', SInt defaultRateLimitBurst),
      (''tracing-enabled'', SBool defaultTracingEnabled)]"

definition setDefaults :: "viper \<Rightarrow> viper" where
  "setDefaults vp0 =
     (let vp = SetDefault ''addr'' (SString defaultAddr) vp0;
          vp = SetDefault ''metrics-addr'' (SString defaultMetricsAddr) vp;
          vp = SetDefault ''read-timeout'' (SDuration defaultReadTimeout) vp;
          vp = SetDefault ''read-header-timeout'' (SDuration defaultReadHeaderTimeout) vp;
          vp = SetDefault ''write-timeout'' (SDuration defaultWriteTimeout) vp;
          vp = SetDefault ''idle-timeout'' (SDuration defaultIdleTimeout) vp;
          vp = SetDefault ''request-timeout'' (SDuration defaultRequestTimeout) vp;
          vp = SetDefault ''shutdown-grace'' (SDuration defaultShutdownGrace) vp;
          vp = SetDefault ''log-level'' (SString defaultLogLevel) vp;
          vp = SetDefault ''log-format'' (SString defaultLogFormat) vp;
          vp = SetDefault ''cors-allowed-origins'' (SStrings []) vp;
          vp = SetDefault ''trusted-proxy-header'' (SString []) vp;
          vp = SetDefault ''database-url'' (SString []) vp;
          vp = SetDefault ''db-max-conns'' (SInt defaultDBMaxConns) vp;
          vp = SetDefault ''authz-enabled'' (SBool defaultAuthzEnabled) vp;
          vp = SetDefault ''authz-policy-dir'' (SString []) vp;
          vp = SetDefault ''rate-limit-enabled'' (SBool defaultRateLimitEnabled) vp;
          vp = SetDefault ''rate-limit-rps'' (SFloat defaultRateLimitRPS) vp;
          vp = SetDefault ''rate-limit-burst'' (SInt defaultRateLimitBurst) vp
      in SetDefault ''tracing-enabled'' (SBool defaultTracingEnabled) vp)"

definition Load :: "casts \<Rightarrow> viper \<Rightarrow> config" where
  "Load c vp0 =
     (let vp = setDefaults vp0;
          GetString = vp_get (to_String c) [] vp; GetDuration = vp_get (to_Duration c) 0 vp;
          GetBool = vp_get (to_Bool c) False vp
      in \<lparr>Addr = GetString ''addr'',
          MetricsAddr = GetString ''metrics-addr'',
          ReadTimeout = GetDuration ''read-timeout'',
          ReadHeaderTimeout = GetDuration ''read-header-timeout'',
          WriteTimeout = GetDuration ''write-timeout'',
          IdleTimeout = GetDuration ''idle-timeout'',
          RequestTimeout = GetDuration ''request-timeout'',
          ShutdownGrace = GetDuration ''shutdown-grace'',
          LogLevel = GetString ''log-level'',
          LogFormat = GetString ''log-format'',
          CORSAllowedOrigins = vp_get (to_Strings c) [] vp ''cors-allowed-origins'',
          TrustedProxyHeader = GetString ''trusted-proxy-header'',
          DatabaseURL = GetString ''database-url'',
          DBMaxConns = vp_get (to_Int32 c) 0 vp ''db-max-conns'',
          AuthzEnabled = GetBool ''authz-enabled'',
          AuthzPolicyDir = GetString ''authz-policy-dir'',
          RateLimitEnabled = GetBool ''rate-limit-enabled'',
          RateLimitRPS = vp_get (to_Float c) (Fin 0) vp ''rate-limit-rps'',
          RateLimitBurst = vp_get (to_Int c) 0 vp ''rate-limit-burst'',
          TracingEnabled = GetBool ''tracing-enabled''\<rparr>)"

section \<open>Validation\<close>

definition Validate :: "config \<Rightarrow> go_error option" where
  "Validate c =
     (if TrimSpace (Addr c) = [] then Some (ErrorString ''addr must not be empty'')
      else if MetricsAddr c \<noteq> [] \<and> MetricsAddr c = Addr c then Some (ErrorString ''metrics-addr must differ from addr'')
      else if RequestTimeout c \<le> 0 then Some (ErrorString ''request-timeout must be positive'')
      else if ShutdownGrace c \<le> 0 then Some (ErrorString ''shutdown-grace must be positive'')
      else if LogFormat c \<noteq> ''json'' \<and> LogFormat c \<noteq> ''text''
        then Some (ErrorFmt ''log-format must be %q or %q, got %q'' [''json'', ''text'', LogFormat c])
      else if TrimSpace (DatabaseURL c) = [] then Some (ErrorString ''database-url is required'')
      else if RateLimitEnabled c \<and> float_le_zero (RateLimitRPS c)
        then Some (ErrorString ''rate-limit-rps must be positive when rate limiting is enabled'')
      else if RateLimitEnabled c \<and> RateLimitBurst c \<le> 0
        then Some (ErrorString ''rate-limit-burst must be positive when rate limiting is enabled'')
      else None)"

section \<open>Lemmas\<close>

definition defaultConfig :: config where
  "defaultConfig =
     \<lparr>Addr = defaultAddr, MetricsAddr = defaultMetricsAddr, ReadTimeout = defaultReadTimeout,
      ReadHeaderTimeout = defaultReadHeaderTimeout, WriteTimeout = defaultWriteTimeout, IdleTimeout = defaultIdleTimeout,
      RequestTimeout = defaultRequestTimeout, ShutdownGrace = defaultShutdownGrace, LogLevel = defaultLogLevel,
      LogFormat = defaultLogFormat, CORSAllowedOrigins = [], TrustedProxyHeader = [], DatabaseURL = [],
      DBMaxConns = defaultDBMaxConns, AuthzEnabled = defaultAuthzEnabled, AuthzPolicyDir = [],
      RateLimitEnabled = defaultRateLimitEnabled, RateLimitRPS = defaultRateLimitRPS, RateLimitBurst = defaultRateLimitBurst,
      TracingEnabled = defaultTracingEnabled\<rparr>"

lemma setDefaults_defaults:
  "map_of (vp_defaults (setDefaults vp)) k =
     (case map_of (RegisterFlags []) k of Some v \<Rightarrow> Some v | None \<Rightarrow> map_of (vp_defaults vp) k)"
  by (simp add: setDefaults_def RegisterFlags_def SetDefault_def Let_def)

text \<open>A given setting has the type of its flag; a setting of no flag is never read.\<close>

fun same_type :: "setting \<Rightarrow> setting \<Rightarrow> bool" where
  "same_type (SString _) (SString _) = True"
| "same_type (SDuration _) (SDuration _) = True"
| "same_type (SStrings _) (SStrings _) = True"
| "same_type (SInt _) (SInt _) = True"
| "same_type (SFloat _) (SFloat _) = True"
| "same_type (SBool _) (SBool _) = True"
| "same_type _ _ = False"

fun in_int32 :: "setting \<Rightarrow> bool" where
  "in_int32 (SInt i) = (- (2 ^ 31) \<le> i \<and> i < 2 ^ 31)"
| "in_int32 _ = True"

definition well_typed :: "viper \<Rightarrow> bool" where
  "well_typed vp \<longleftrightarrow> (\<forall>(key, v) \<in> set (vp_given vp).
     case map_of (RegisterFlags []) key of
       None \<Rightarrow> True
     | Some d \<Rightarrow> same_type d v \<and> (key = ''db-max-conns'' \<longrightarrow> in_int32 v))"

lemma same_type_iff:
  "same_type (SString s) v \<longleftrightarrow> (\<exists>x. v = SString x)" "same_type (SDuration d) v \<longleftrightarrow> (\<exists>x. v = SDuration x)"
  "same_type (SStrings ss) v \<longleftrightarrow> (\<exists>x. v = SStrings x)" "same_type (SInt i) v \<longleftrightarrow> (\<exists>x. v = SInt x)"
  "same_type (SFloat f) v \<longleftrightarrow> (\<exists>x. v = SFloat x)" "same_type (SBool b) v \<longleftrightarrow> (\<exists>x. v = SBool x)"
  by (cases v; simp)+

lemma vp_find_typed:
  assumes "well_typed vp" and "map_of (RegisterFlags []) key = Some d"
  shows "\<exists>v. vp_find (setDefaults vp) key = Some v \<and> same_type d v \<and> (key = ''db-max-conns'' \<longrightarrow> in_int32 v)"
proof (cases "map_of (vp_given vp) key")
  case None
  have given: "vp_given (setDefaults vp) = vp_given vp" by (simp add: setDefaults_def SetDefault_def Let_def)
  have "same_type d d" by (cases d) simp_all
  moreover have "key = ''db-max-conns'' \<longrightarrow> in_int32 d" using assms(2) by (auto simp: RegisterFlags_def go_defs)
  ultimately show ?thesis using None assms(2) by (simp add: vp_find_def setDefaults_defaults given)
next
  case (Some v)
  then have "(key, v) \<in> set (vp_given vp)" by (rule map_of_SomeD)
  with assms have "same_type d v \<and> (key = ''db-max-conns'' \<longrightarrow> in_int32 v)" unfolding well_typed_def by fastforce
  moreover have "vp_given (setDefaults vp) = vp_given vp" by (simp add: setDefaults_def SetDefault_def Let_def)
  ultimately show ?thesis using Some by (simp add: vp_find_def)
qed

text \<open>So a getter of the flag's type needs no conversion.\<close>

lemma typed_getters:
  assumes "well_typed vp" and "casts_ok c" and "casts_ok c'"
  shows "map_of (RegisterFlags []) k = Some (SString s) \<Longrightarrow> vp_get (to_String c) z (setDefaults vp) k = vp_get (to_String c') z (setDefaults vp) k"
    and "map_of (RegisterFlags []) k = Some (SDuration d) \<Longrightarrow> vp_get (to_Duration c) z1 (setDefaults vp) k = vp_get (to_Duration c') z1 (setDefaults vp) k"
    and "map_of (RegisterFlags []) k = Some (SStrings ss) \<Longrightarrow> vp_get (to_Strings c) z2 (setDefaults vp) k = vp_get (to_Strings c') z2 (setDefaults vp) k"
    and "map_of (RegisterFlags []) k = Some (SInt i) \<Longrightarrow> vp_get (to_Int c) z3 (setDefaults vp) k = vp_get (to_Int c') z3 (setDefaults vp) k"
    and "map_of (RegisterFlags []) ''db-max-conns'' = Some (SInt i) \<Longrightarrow> vp_get (to_Int32 c) z3 (setDefaults vp) ''db-max-conns'' = vp_get (to_Int32 c') z3 (setDefaults vp) ''db-max-conns''"
    and "map_of (RegisterFlags []) k = Some (SFloat f) \<Longrightarrow> vp_get (to_Float c) z4 (setDefaults vp) k = vp_get (to_Float c') z4 (setDefaults vp) k"
    and "map_of (RegisterFlags []) k = Some (SBool b) \<Longrightarrow> vp_get (to_Bool c) z5 (setDefaults vp) k = vp_get (to_Bool c') z5 (setDefaults vp) k"
  using assms(2,3) by (auto simp: vp_get_def casts_ok_def same_type_iff dest!: vp_find_typed [OF assms(1)])

text \<open>Casts for the examples: the identity on the right type, the zero value otherwise.\<close>

definition plain_casts :: casts where
  "plain_casts = \<lparr>to_String = (\<lambda>v. case v of SString s \<Rightarrow> s | _ \<Rightarrow> []), to_Duration = (\<lambda>v. case v of SDuration d \<Rightarrow> d | _ \<Rightarrow> 0),
     to_Strings = (\<lambda>v. case v of SStrings ss \<Rightarrow> ss | _ \<Rightarrow> []), to_Int = (\<lambda>v. case v of SInt i \<Rightarrow> i | _ \<Rightarrow> 0),
     to_Int32 = (\<lambda>v. case v of SInt i \<Rightarrow> i | _ \<Rightarrow> 0), to_Float = (\<lambda>v. case v of SFloat x \<Rightarrow> x | _ \<Rightarrow> Fin 0),
     to_Bool = (\<lambda>v. case v of SBool b \<Rightarrow> b | _ \<Rightarrow> False)\<rparr>"

lemma plain_casts_ok: "casts_ok plain_casts"
  by (simp add: casts_ok_def plain_casts_def)

lemma Load_defaults:
  assumes "casts_ok c"
  shows "Load c \<lparr>vp_given = [], vp_defaults = ds\<rparr> = defaultConfig"
    and "Load c \<lparr>vp_given = [(''database-url'', SString u)], vp_defaults = ds\<rparr> = defaultConfig\<lparr>DatabaseURL := u\<rparr>"
  using assms
  by (simp_all add: Load_def Let_def vp_get_def vp_find_def setDefaults_def SetDefault_def casts_ok_def defaultConfig_def go_defs)

lemma default_config_accepts:
  "Validate defaultConfig = Some (ErrorString ''database-url is required'')"
  "Validate (defaultConfig\<lparr>DatabaseURL := u\<rparr>) = None \<longleftrightarrow> TrimSpace u \<noteq> []"
proof -
  have ":" : "TrimSpace '':8080'' \<noteq> []" by code_simp
  have "TrimSpace [] = []" by code_simp
  with ":" show "Validate defaultConfig = Some (ErrorString ''database-url is required'')"
    and "Validate (defaultConfig\<lparr>DatabaseURL := u\<rparr>) = None \<longleftrightarrow> TrimSpace u \<noteq> []"
    by (simp_all add: Validate_def defaultConfig_def go_defs)
qed

section \<open>Properties\<close>



text \<open>
  Secure defaults: with no setting given, the configuration turns authorization and rate limiting
  on and fails validation for lack of a database URL only; giving just a database URL makes it valid
  exactly when the URL is not blank.
\<close>

lemma default_config_needs_database:
  assumes "casts_ok c"
  shows "Validate (Load c \<lparr>vp_given = [], vp_defaults = []\<rparr>) = Some (ErrorString ''database-url is required'')
    \<and> (Validate (Load c \<lparr>vp_given = [(''database-url'', SString u)], vp_defaults = []\<rparr>) = None \<longleftrightarrow> TrimSpace u \<noteq> [])
    \<and> AuthzEnabled (Load c \<lparr>vp_given = [(''database-url'', SString u)], vp_defaults = []\<rparr>)
    \<and> RateLimitEnabled (Load c \<lparr>vp_given = [(''database-url'', SString u)], vp_defaults = []\<rparr>)"
  by (simp add: Load_defaults [OF assms] default_config_accepts) (simp add: defaultConfig_def go_defs)

text \<open>
  Validation accepts exactly the configurations of this list.  The rate is only checked by \<open><= 0\<close>,
  which is false of NaN, so \<open>--rate-limit-rps=NaN\<close> is accepted although it is not positive.
\<close>

lemma Validate_accepts:
  "Validate c = None \<longleftrightarrow>
     TrimSpace (Addr c) \<noteq> [] \<and> MetricsAddr c \<noteq> Addr c
   \<and> 0 < RequestTimeout c \<and> 0 < ShutdownGrace c \<and> LogFormat c \<in> {''json'', ''text''} \<and> TrimSpace (DatabaseURL c) \<noteq> []
   \<and> (if RateLimitEnabled c then 0 < RateLimitBurst c \<and> RateLimitRPS c \<in> {NaN, PosInf} \<union> Fin ` {0<..} else True)"
proof -
  have "TrimSpace [] = []" by code_simp
  then have blank: "TrimSpace (Addr c) \<noteq> [] \<Longrightarrow> (MetricsAddr c \<noteq> [] \<and> MetricsAddr c = Addr c) = (MetricsAddr c = Addr c)" by auto
  have rate: "float_le_zero x \<longleftrightarrow> x \<notin> {NaN, PosInf} \<union> Fin ` {0<..}" for x by (cases x) auto
  show ?thesis
  proof (cases "TrimSpace (Addr c) = []")
    case False
    then show ?thesis unfolding Validate_def blank [OF False] rate by auto
  qed (simp add: Validate_def)
qed

end
