(* ===== verification/Sha256.thy ===== *)
theory Sha256
  imports GoStrings "HOL-Library.Word"
begin

text \<open>
  SHA-256 (\<open>crypto/sha256\<close>, FIPS 180-4) and lowercase hexadecimal (\<open>encoding/hex\<close>), the standard
  library functions behind \<open>hashKey\<close> of \<open>internal/authz/apikey/store.go\<close>.
\<close>

unbundle bit_operations_syntax

type_synonym w32 = "32 word"

text \<open>
  The constants, from their definition in the standard: the first 32 bits of the fractional parts of
  the cube roots of the first 64 primes, and of the square roots of the first eight.
\<close>

definition primes_below :: "nat \<Rightarrow> nat list" where
  "primes_below m = filter (\<lambda>n. list_all (\<lambda>d. n mod d \<noteq> 0) [2..<n]) [2..<m]"

text \<open>The integer \<open>k\<close>-th root, bit by bit from bit \<open>b\<close> down.\<close>

fun root_bits :: "nat \<Rightarrow> nat \<Rightarrow> nat \<Rightarrow> nat \<Rightarrow> nat" where
  "root_bits k n 0 r = r"
| "root_bits k n (Suc b) r = root_bits k n b (if (r + 2 ^ b) ^ k \<le> n then r + 2 ^ b else r)"

definition root_fraction :: "nat \<Rightarrow> nat \<Rightarrow> w32" where
  "root_fraction k p = word_of_nat (root_bits k (p * 2 ^ (32 * k)) 40 0)"

definition sha_K :: "w32 list" where
  "sha_K = map (root_fraction 3) (primes_below 312)"

definition sha_init :: "w32 list" where
  "sha_init = map (root_fraction 2) [2, 3, 5, 7, 11, 13, 17, 19]"

definition rotr :: "nat \<Rightarrow> w32 \<Rightarrow> w32" where
  "rotr n x = drop_bit n x OR push_bit (32 - n) x"

definition small_sigma0 :: "w32 \<Rightarrow> w32" where
  "small_sigma0 x = rotr 7 x XOR rotr 18 x XOR drop_bit 3 x"

definition small_sigma1 :: "w32 \<Rightarrow> w32" where
  "small_sigma1 x = rotr 17 x XOR rotr 19 x XOR drop_bit 10 x"

definition big_sigma0 :: "w32 \<Rightarrow> w32" where
  "big_sigma0 x = rotr 2 x XOR rotr 13 x XOR rotr 22 x"

definition big_sigma1 :: "w32 \<Rightarrow> w32" where
  "big_sigma1 x = rotr 6 x XOR rotr 11 x XOR rotr 25 x"

definition sha_Ch :: "w32 \<Rightarrow> w32 \<Rightarrow> w32 \<Rightarrow> w32" where
  "sha_Ch x y z = (x AND y) XOR (NOT x AND z)"

definition sha_Maj :: "w32 \<Rightarrow> w32 \<Rightarrow> w32 \<Rightarrow> w32" where
  "sha_Maj x y z = (x AND y) XOR (x AND z) XOR (y AND z)"

text \<open>The message schedule, kept reversed: the last sixteen words give the next one.\<close>

fun sha_extend :: "nat \<Rightarrow> w32 list \<Rightarrow> w32 list" where
  "sha_extend 0 ws = ws"
| "sha_extend (Suc n) ws =
     sha_extend n ((small_sigma1 (ws ! 1) + ws ! 6 + small_sigma0 (ws ! 14) + ws ! 15) # ws)"

definition sha_schedule :: "w32 list \<Rightarrow> w32 list" where
  "sha_schedule block = rev (sha_extend 48 (rev block))"

fun sha_round :: "w32 \<times> w32 \<Rightarrow> w32 list \<Rightarrow> w32 list" where
  "sha_round (k, w) [a, b, c, d, e, f, g, h] =
     (let t1 = h + big_sigma1 e + sha_Ch e f g + k + w; t2 = big_sigma0 a + sha_Maj a b c
      in [t1 + t2, a, b, c, d + t1, e, f, g])"
| "sha_round _ s = s"

definition sha_block :: "w32 list \<Rightarrow> w32 list \<Rightarrow> w32 list" where
  "sha_block hs block = map2 (+) hs (fold sha_round (zip sha_K (sha_schedule block)) hs)"

definition word_be :: "nat list \<Rightarrow> w32" where
  "word_be bs = word_of_nat (foldl (\<lambda>acc b. acc * 256 + b) 0 bs)"

fun chunks :: "nat \<Rightarrow> nat \<Rightarrow> 'a list \<Rightarrow> 'a list list" where
  "chunks n 0 xs = []"
| "chunks n (Suc k) xs = take n xs # chunks n k (drop n xs)"

definition sha_pad :: "nat list \<Rightarrow> nat list" where
  "sha_pad bs =
     (let n = length bs; z = (119 - n mod 64) mod 64
      in bs @ [128] @ replicate z 0 @ map (\<lambda>i. (8 * n) div 256 ^ i mod 256) (rev [0..<8]))"

definition sha_blocks :: "nat list \<Rightarrow> w32 list list" where
  "sha_blocks bs = (let p = sha_pad bs in map (\<lambda>blk. map word_be (chunks 4 16 blk)) (chunks 64 (length p div 64) p))"

definition word_bytes :: "w32 \<Rightarrow> nat list" where
  "word_bytes x = map (\<lambda>i. unat x div 256 ^ i mod 256) [3, 2, 1, 0]"

definition Sum256 :: "string \<Rightarrow> nat list" where
  "Sum256 s = concat (map word_bytes (foldl sha_block sha_init (sha_blocks (map byte s))))"

definition hex_digit :: "nat \<Rightarrow> char" where
  "hex_digit v = (if v < 10 then char_of (48 + v) else char_of (87 + v))"

definition hex_EncodeToString :: "nat list \<Rightarrow> string" where
  "hex_EncodeToString bs = concat (map (\<lambda>b. [hex_digit (b div 16), hex_digit (b mod 16)]) bs)"

section \<open>Lemmas\<close>

lemma length_chunks [simp]: "length (chunks n k xs) = k"
  by (induction k arbitrary: xs) auto

lemma concat_chunks: "length xs = n * k \<Longrightarrow> concat (chunks n k xs) = xs"
  by (induction k arbitrary: xs) auto

lemma length_sha_pad_mod: "length (sha_pad bs) mod 64 = 0"
proof -
  define n where "n = length bs"
  have "length (sha_pad bs) = n + 9 + (119 - n mod 64) mod 64" by (simp add: sha_pad_def n_def Let_def)
  moreover have "\<exists>q. n + 9 + (119 - n mod 64) mod 64 = 64 * q"
  proof (cases "n mod 64 \<le> 55")
    case True
    then have "n + 9 + (119 - n mod 64) mod 64 = 64 * (n div 64 + 1)"
      using mod_add_self2 [of "55 - n mod 64" 64] by (simp add: minus_mod_eq_mult_div [symmetric] add.commute)
    then show ?thesis ..
  next
    case False
    moreover have "n mod 64 < 64" by simp
    ultimately have "n + 9 + (119 - n mod 64) mod 64 = 64 * (n div 64 + 2)"
      by (simp add: minus_mod_eq_mult_div [symmetric])
    then show ?thesis ..
  qed
  ultimately show ?thesis by auto
qed

text \<open>The blocks cover the padded message: nothing of the key is dropped before it is hashed.\<close>

lemma sha_pad_blocks: "concat (chunks 64 (length (sha_pad bs) div 64) (sha_pad bs)) = sha_pad bs"
  using length_sha_pad_mod [of bs] by (intro concat_chunks) (simp add: mod_eq_0_iff_dvd)

lemma length_sha_round [simp]: "length (sha_round kw s) = length s"
  by (cases "(kw, s)" rule: sha_round.cases) (auto simp: Let_def)

lemma length_fold_sha_round [simp]: "length (fold sha_round kws s) = length s"
  by (induction kws arbitrary: s) auto

lemma length_foldl_sha_block: "length (foldl sha_block hs blocks) = length hs"
  by (induction blocks arbitrary: hs) (auto simp: sha_block_def)

lemma length_Sum256: "length (Sum256 s) = 32"
proof -
  have "length (concat (map word_bytes xs)) = 4 * length xs" for xs
    by (induction xs) (auto simp: word_bytes_def)
  then show ?thesis by (simp add: Sum256_def length_foldl_sha_block sha_init_def)
qed

lemma Sum256_bytes: "b \<in> set (Sum256 s) \<Longrightarrow> b < 256"
  by (auto simp: Sum256_def word_bytes_def)

lemma length_hex [simp]: "length (hex_EncodeToString bs) = 2 * length bs"
  by (induction bs) (auto simp: hex_EncodeToString_def)

lemma hex_digit_lower: "v < 16 \<Longrightarrow> hex_digit v \<in> set ''0123456789abcdef''"
proof -
  assume "v < 16"
  then have "v \<in> set [0..<16]" by simp
  moreover have "list_all (\<lambda>v. hex_digit v \<in> set ''0123456789abcdef'') [0..<16]" by code_simp
  ultimately show ?thesis unfolding list_all_iff by blast
qed

lemma hex_digit_inj: "v < 16 \<Longrightarrow> u < 16 \<Longrightarrow> hex_digit v = hex_digit u \<longleftrightarrow> v = u"
  by (auto simp: hex_digit_def split: if_splits)

lemma hex_lower:
  assumes "\<forall>b \<in> set bs. b < 256"
  shows "set (hex_EncodeToString bs) \<subseteq> set ''0123456789abcdef''"
proof -
  have "hex_digit (b div 16) \<in> set ''0123456789abcdef''" "hex_digit (b mod 16) \<in> set ''0123456789abcdef''"
    if "b \<in> set bs" for b
    using assms that by (auto intro!: hex_digit_lower simp del: set_simps simp: less_mult_imp_div_less)
  then show ?thesis unfolding hex_EncodeToString_def by auto
qed

lemma hex_inj:
  "\<forall>b \<in> set bs. b < 256 \<Longrightarrow> \<forall>b \<in> set cs. b < 256 \<Longrightarrow> hex_EncodeToString bs = hex_EncodeToString cs \<Longrightarrow> bs = cs"
proof (induction bs arbitrary: cs)
  case Nil
  then show ?case by (cases cs) (auto simp: hex_EncodeToString_def)
next
  case (Cons b bs)
  then obtain c cs' where cs: "cs = c # cs'" by (cases cs) (auto simp: hex_EncodeToString_def)
  from Cons.prems have "hex_digit (b div 16) = hex_digit (c div 16)" "hex_digit (b mod 16) = hex_digit (c mod 16)"
    and rest: "hex_EncodeToString bs = hex_EncodeToString cs'" by (auto simp: cs hex_EncodeToString_def)
  then have "b div 16 = c div 16" "b mod 16 = c mod 16"
    using Cons.prems by (auto simp: cs hex_digit_inj less_mult_imp_div_less)
  then have "b = c" by (metis div_mult_mod_eq)
  moreover have "bs = cs'" using Cons.IH [OF _ _ rest] Cons.prems(1,2) by (simp add: cs)
  ultimately show ?case by (simp add: cs)
qed

end
