(* ===== verification/ApiKey.thy ===== *)
theory ApiKey
  imports AuthzMiddleware Sha256
begin

text \<open>
  The default authenticator: \<open>internal/authz/apikey/apikey.go\<close> and its PostgreSQL store
  \<open>internal/authz/apikey/store.go\<close>.  The \<open>api_keys\<close> table is a map from the primary key \<open>key_hash\<close> to the
  subject and the roles; a query may fail, as the list \<open>key_faults\<close> prescribes.
\<close>

section \<open>The port and the authenticator (apikey.go)\<close>

definition bearerPrefix :: string where
  [go_defs]: "bearerPrefix = ''Bearer ''"

definition ErrInvalidKey :: go_error where
  [go_defs]: "ErrInvalidKey = Sentinel ''apikey.ErrInvalidKey'' ''invalid api key''"

record identity =
  Subject :: string
  Roles :: "string list"

text \<open>\<open>Lookup\<close> of the port: the identity, if a row matches, or a store failure.\<close>

type_synonym 'k api_key_store = "string \<Rightarrow> 'k \<Rightarrow> identity option result \<times> 'k"

definition toPrincipal :: "identity \<Rightarrow> principal" where
  "toPrincipal identity =
     \<lparr>UID = NewEntityUID PrincipalType (Subject identity),
      Claims = [(RolesClaim, VSet (map VString (Roles identity)))]\<rparr>"

definition credentialFrom :: "huma_ctx \<Rightarrow> string" where
  "credentialFrom ctx =
     (let key = TrimSpace (hctx_Header ctx APIKeyHeader) in
      if key \<noteq> [] then key
      else let authorization = TrimSpace (hctx_Header ctx ''Authorization'') in
        case CutPrefix authorization bearerPrefix of
          (rest, found) \<Rightarrow> if found then TrimSpace rest else [])"

definition Authenticate :: "'k api_key_store \<Rightarrow> huma_ctx \<Rightarrow> 'k \<Rightarrow> principal result \<times> 'k" where
  "Authenticate store ctx k =
     (let key = credentialFrom ctx in
      if key = [] then (Inr Anonymous, k)
      else case store key k of
        (Inl e, k') \<Rightarrow> (Inl (ErrorString ''api key lookup failed''), k')
      | (Inr None, k') \<Rightarrow> (Inl ErrInvalidKey, k')
      | (Inr (Some identity), k') \<Rightarrow> (Inr (toPrincipal identity), k'))"

section \<open>The PostgreSQL store (store.go)\<close>

definition hashKey :: "string \<Rightarrow> string" where
  "hashKey key = hex_EncodeToString (Sum256 key)"

record key_db =
  table_api_keys :: "(string \<times> string \<times> string list) list"
  key_faults :: "go_error option list"

definition pgx_ErrNoRows :: go_error where
  [go_defs]: "pgx_ErrNoRows = Sentinel ''pgx.ErrNoRows'' ''no rows in result set''"

text \<open>\<open>QueryRow(lookupQuery, h).Scan(...)\<close>.\<close>

definition query_api_key :: "string \<Rightarrow> key_db \<Rightarrow> (string \<times> string list) result \<times> key_db" where
  "query_api_key h db =
     (let db' = db\<lparr>key_faults := tl (key_faults db)\<rparr> in
      case (case key_faults db of [] \<Rightarrow> None | f # _ \<Rightarrow> f) of
        Some e \<Rightarrow> (Inl e, db')
      | None \<Rightarrow> (case map_of (table_api_keys db) h of None \<Rightarrow> (Inl pgx_ErrNoRows, db') | Some r \<Rightarrow> (Inr r, db')))"

definition Lookup :: "key_db api_key_store" where
  "Lookup key db =
     (case query_api_key (hashKey key) db of
        (Inl e, db') \<Rightarrow>
          (if errors_Is e pgx_ErrNoRows then (Inr None, db')
           else (Inl (Errorf ''query api key: %w'' [] e), db'))
      | (Inr (subject, roles), db') \<Rightarrow> (Inr (Some \<lparr>Subject = subject, Roles = roles\<rparr>), db'))"

section \<open>Lemmas\<close>

text \<open>A digest is 64 lowercase hexadecimal digits, whatever the key.\<close>

lemma hashKey_shape: "length (hashKey key) = 64 \<and> set (hashKey key) \<subseteq> set ''0123456789abcdef''"
  using hex_lower [of "Sum256 key"] Sum256_bytes by (auto simp: hashKey_def length_Sum256 simp del: set_simps)

lemma hashKey_collision: "hashKey k = hashKey k' \<Longrightarrow> Sum256 k = Sum256 k'"
  unfolding hashKey_def using Sum256_bytes by (auto intro!: hex_inj)

lemma toPrincipal_not_anonymous [simp]: "\<not> IsAnonymous (toPrincipal i)"
  by (simp add: toPrincipal_def IsAnonymous_def go_defs)

text \<open>The roles a key carries are exactly the role parents of its principal entity.\<close>

lemma toPrincipal_parents:
  "set (ent_Parents (principal_entity (toPrincipal i))) = NewEntityUID RoleType ` set (Roles i)"
  by (auto simp: principal_entity_def toPrincipal_def roleParents_def set_role_uids)

text \<open>A key sent as a bearer token keeps its shape under trimming.\<close>

lemma space_encodings_space:
  "e \<in> set space_encodings \<Longrightarrow> e = [CHR 0x20] \<or> CHR 0x20 \<notin> set e"
proof -
  have "list_all (\<lambda>e. e = [CHR 0x20] \<or> CHR 0x20 \<notin> set e) space_encodings" by code_simp
  then show "e \<in> set space_encodings \<Longrightarrow> e = [CHR 0x20] \<or> CHR 0x20 \<notin> set e" by (auto simp: list_all_iff)
qed

lemma starts_with_append: "starts_with p (s @ t) \<Longrightarrow> length p \<le> length s \<Longrightarrow> starts_with p s"
  by (simp add: starts_with_def)

lemma starts_with_set: "starts_with p s \<Longrightarrow> n < length p \<Longrightarrow> s ! n \<in> set p"
  unfolding starts_with_def by (metis nth_mem nth_take)

lemma trimmed_bearer:
  assumes "trimmed k" and "k \<noteq> []"
  shows "trimmed (bearerPrefix @ k)"
proof -
  have "no_prefix space_encodings (bearerPrefix @ k)"
  proof -
    have "list_all (\<lambda>e. e \<noteq> [] \<and> hd e \<noteq> CHR ''B'') space_encodings" by code_simp
    then show ?thesis by (auto simp: no_prefix_def starts_with_def list_all_iff bearerPrefix_def neq_Nil_conv)
  qed
  moreover have "\<not> starts_with (rev e) (rev (bearerPrefix @ k))" if "e \<in> set space_encodings" "e \<noteq> []" for e
  proof
    assume st: "starts_with (rev e) (rev (bearerPrefix @ k))"
    then have st': "starts_with (rev e) (rev k @ rev bearerPrefix)" by simp
    show False
    proof (cases "length e \<le> length k")
      case True
      with st' have "starts_with (rev e) (rev k)" by (auto intro: starts_with_append)
      with assms(1) that show False by (auto simp: trimmed_def no_prefix_def list_all_iff)
    next
      case False
      then have "(rev k @ rev bearerPrefix) ! length k \<in> set (rev e)"
        by (intro starts_with_set [OF st']) simp
      then have "CHR 0x20 \<in> set e" by (simp add: nth_append bearerPrefix_def)
      with space_encodings_space [OF that(1)] have "length e = 1" by auto
      with False assms(2) show False by (cases k) auto
    qed
  qed
  ultimately show ?thesis by (auto simp: trimmed_def no_prefix_def list_all_iff)
qed

lemma credentialFrom_header:
  "TrimSpace (hctx_Header ctx APIKeyHeader) \<noteq> [] \<Longrightarrow> credentialFrom ctx = TrimSpace (hctx_Header ctx APIKeyHeader)"
  by (simp add: credentialFrom_def Let_def)

lemma Lookup_healthy:
  "key_faults db = [] \<Longrightarrow> Lookup key db =
     (Inr (map_option (\<lambda>(subject, roles). \<lparr>Subject = subject, Roles = roles\<rparr>) (map_of (table_api_keys db) (hashKey key))), db)"
  by (auto simp: Lookup_def query_api_key_def Let_def pgx_ErrNoRows_def split: option.splits)

lemma Authenticate_healthy:
  "key_faults db = [] \<Longrightarrow> Authenticate Lookup ctx db =
     (if credentialFrom ctx = [] then Inr Anonymous
      else case map_of (table_api_keys db) (hashKey (credentialFrom ctx)) of
        None \<Rightarrow> Inl ErrInvalidKey
      | Some (subject, roles) \<Rightarrow> Inr (toPrincipal \<lparr>Subject = subject, Roles = roles\<rparr>), db)"
  by (auto simp: Authenticate_def Lookup_healthy Let_def split: option.split)

section \<open>Properties\<close>

text \<open>
  C21. The two credential channels agree: a key without surrounding white space is the same credential
  in the \<open>X-API-Key\<close> header, alone or next to any Authorization header, and as a bearer token.
\<close>

theorem credential_channels_agree:
  assumes "trimmed k" and "k \<noteq> []"
    and "hctx_Header c1 APIKeyHeader = k"
    and "TrimSpace (hctx_Header c2 APIKeyHeader) = []" and "hctx_Header c2 ''Authorization'' = ''Bearer '' @ k"
  shows "credentialFrom c1 = k \<and> Authenticate store c1 w = Authenticate store c2 w"
proof -
  have "credentialFrom c1 = k"
    using assms(1-3) by (simp add: credentialFrom_header TrimSpace_trimmed)
  moreover have "credentialFrom c2 = k"
    using assms trimmed_bearer [OF assms(1,2)]
    by (simp add: credentialFrom_def Let_def TrimSpace_trimmed CutPrefix_def starts_with_def go_defs)
  ultimately show ?thesis by (simp add: Authenticate_def)
qed

definition with_headers :: "(string \<times> string) list \<Rightarrow> huma_ctx" where
  "with_headers hs = \<lparr>hctx_headers = hs, hctx_params = [], hctx_Operation = None,
     hctx_Context = \<lparr>ctx_principal = None, ctx_deadline = None, ctx_clientIP = [], ctx_reqID = [], ctx_logger = None\<rparr>\<rparr>"

theorem credential_channels_agree_witness:
  "Authenticate Lookup (with_headers [(''X-API-Key'', ''k1''), (''Authorization'', ''Bearer other'')]) \<lparr>table_api_keys = [], key_faults = []\<rparr>
     = Authenticate Lookup (with_headers [(''Authorization'', ''Bearer k1'')]) \<lparr>table_api_keys = [], key_faults = []\<rparr>"
proof -
  have t: "trimmed ''k1''" by code_simp
  show ?thesis
    using credential_channels_agree [OF t, of "with_headers [(''X-API-Key'', ''k1''), (''Authorization'', ''Bearer other'')]"
        "with_headers [(''Authorization'', ''Bearer k1'')]" Lookup "\<lparr>table_api_keys = [], key_faults = []\<rparr>"]
    by (simp add: with_headers_def hctx_Header_def APIKeyHeader_def)
qed

text \<open>
  C20. What a key buys: without a credential the caller is anonymous and the store is not read; with
  one, on a healthy store, the caller authenticates exactly when the digest of the key is stored, then
  as the stored subject, never as anonymous and with exactly the stored roles as the role parents of
  its entity; and every error is one of two fixed values, so no error carries the key.
\<close>

theorem Authenticate_outcome:
  assumes "Authenticate Lookup ctx db = (res, db')"
  shows "(credentialFrom ctx = [] \<longrightarrow> res = Inr Anonymous \<and> db' = db)
     \<and> (\<forall>e. res = Inl e \<longrightarrow> e = ErrInvalidKey \<or> e = ErrorString ''api key lookup failed'')
     \<and> (credentialFrom ctx \<noteq> [] \<and> key_faults db = [] \<longrightarrow>
          (case map_of (table_api_keys db) (hashKey (credentialFrom ctx)) of
             None \<Rightarrow> res = Inl ErrInvalidKey
           | Some (subject, roles) \<Rightarrow>
               (\<exists>p. res = Inr p \<and> UID p = NewEntityUID ''User'' subject \<and> \<not> IsAnonymous p
                  \<and> set (ent_Parents (principal_entity p)) = NewEntityUID ''Role'' ` set roles)))"
proof (intro conjI impI allI)
  show "res = Inr Anonymous" "db' = db" if "credentialFrom ctx = []"
    using assms that by (simp_all add: Authenticate_def)
  show "e = ErrInvalidKey \<or> e = ErrorString ''api key lookup failed''" if "res = Inl e" for e
    using assms that by (auto simp: Authenticate_def Let_def split: if_splits prod.splits sum.splits option.splits)
  assume "credentialFrom ctx \<noteq> [] \<and> key_faults db = []"
  then have res: "res = (case map_of (table_api_keys db) (hashKey (credentialFrom ctx)) of
      None \<Rightarrow> Inl ErrInvalidKey | Some (subject, roles) \<Rightarrow> Inr (toPrincipal \<lparr>Subject = subject, Roles = roles\<rparr>))"
    using assms by (auto simp: Authenticate_def Let_def Lookup_healthy split: option.splits)
  have "set (ent_Parents (principal_entity (toPrincipal i))) = NewEntityUID ''Role'' ` set (Roles i)" for i
    using toPrincipal_parents by (simp add: RoleType_def)
  then show "case map_of (table_api_keys db) (hashKey (credentialFrom ctx)) of
             None \<Rightarrow> res = Inl ErrInvalidKey
           | Some (subject, roles) \<Rightarrow>
               (\<exists>p. res = Inr p \<and> UID p = NewEntityUID ''User'' subject \<and> \<not> IsAnonymous p
                  \<and> set (ent_Parents (principal_entity p)) = NewEntityUID ''Role'' ` set roles)"
    unfolding res by (auto simp: PrincipalType_def split: option.splits) (auto simp: toPrincipal_def PrincipalType_def)
qed

text \<open>The table the development seed of \<open>hack/sql/0002_seed_api_keys.sql\<close> fills.\<close>

definition seeded_keys :: key_db where
  "seeded_keys = \<lparr>table_api_keys = [(hashKey ''dev-user-key'', ''dev-user'', [''user'']),
                                   (hashKey ''dev-admin-key'', ''dev-admin'', [''admin''])], key_faults = []\<rparr>"

theorem Authenticate_outcome_witness:
  "\<exists>p db'. Authenticate Lookup (with_headers [(''X-API-Key'', ''dev-user-key'')]) seeded_keys = (Inr p, db')
     \<and> UID p = NewEntityUID ''User'' ''dev-user''
     \<and> set (ent_Parents (principal_entity p)) = {NewEntityUID ''Role'' ''user''}"
proof -
  let ?ctx = "with_headers [(''X-API-Key'', ''dev-user-key'')]"
  obtain res db' where R: "Authenticate Lookup ?ctx seeded_keys = (res, db')" by fastforce
  have "trimmed ''dev-user-key''" by code_simp
  then have c: "credentialFrom ?ctx = ''dev-user-key''"
    by (simp add: credentialFrom_def with_headers_def hctx_Header_def APIKeyHeader_def TrimSpace_trimmed)
  have m: "map_of (table_api_keys seeded_keys) (hashKey ''dev-user-key'') = Some (''dev-user'', [''user''])"
    "key_faults seeded_keys = []"
    by (simp_all add: seeded_keys_def)
  show ?thesis using Authenticate_outcome [OF R] R unfolding c m by auto
qed

end
