(* ===== verification/TodoAuthz.thy ===== *)
theory TodoAuthz
  imports ApiKey TodoPort
begin

text \<open>
  The todo resource's authorization slice: \<open>internal/todo/authz/actions.go\<close>, \<open>facts.go\<close> and
  \<open>contribution.go\<close>, the shipped policies \<open>policy.cedar\<close> and \<open>internal/authz/base.cedar\<close> as data, and
  the access matrix they give.

  The Cedar engine is a parameter.  \<open>scope_semantics\<close> states what the Cedar documentation promises of
  it for the two forms of policy the repository ships: a \<open>permit\<close> whose scope constrains the principal
  with \<open>in\<close> and the action with \<open>in [...]\<close>, and nothing else.
\<close>

section \<open>Actions (actions.go)\<close>

definition actionType :: string where
  [go_defs]: "actionType = ''Action''"

definition ActionCreate :: entity_uid where
  [go_defs]: "ActionCreate = NewEntityUID actionType ''todo:create''"

definition ActionRead :: entity_uid where
  [go_defs]: "ActionRead = NewEntityUID actionType ''todo:read''"

definition ActionUpdate :: entity_uid where
  [go_defs]: "ActionUpdate = NewEntityUID actionType ''todo:update''"

definition ActionList :: entity_uid where
  [go_defs]: "ActionList = NewEntityUID actionType ''todo:list''"

definition actions :: "entity_uid list" where
  "actions = [ActionCreate, ActionRead, ActionUpdate, ActionList]"

section \<open>Facts (facts.go)\<close>

definition TodoType :: string where
  [go_defs]: "TodoType = ''Todo''"

text \<open>\<open>VDatetime\<close> stands for \<open>types.NewDatetime\<close>; what precision it keeps is Cedar's.\<close>

definition toEntity :: "todo \<Rightarrow> entity" where
  "toEntity t =
     (let attrs = [(''id'', VString (ID t)), (''title'', VString (Title t)), (''status'', VString (Status t)),
                   (''createdAt'', VDatetime (CreatedAt t))];
          attrs' = (case CompletedAt t of None \<Rightarrow> attrs | Some c \<Rightarrow> aput ''completedAt'' (VDatetime c) attrs)
      in \<lparr>ent_UID = NewEntityUID TodoType (ID t), ent_Parents = [], ent_Attributes = attrs'\<rparr>)"

definition todo_resolve :: "'s repository \<Rightarrow> 's resolve_fn" where
  "todo_resolve repo uid s =
     (if uid_Type uid \<noteq> TodoType then ((zero_entity, False), [], s)
      else case FindByID repo (uid_ID uid) s of
        (Inl e, s') \<Rightarrow> (if errors_Is e ErrNotFound then ((zero_entity, False), [], s')
                      else ((zero_entity, False), [e], s'))
      | (Inr found, s') \<Rightarrow> ((toEntity found, True), [], s'))"

definition newResolver :: "'s repository \<Rightarrow> principal \<Rightarrow> 's resolver" where
  "newResolver repo p = SliceResolver [TodoType] (todo_resolve repo)"

section \<open>The contribution (contribution.go)\<close>

definition Contribution :: "string \<Rightarrow> 's repository \<Rightarrow> 's contribution" where
  "Contribution policy repo =
     \<lparr>Policies = policy, Actions = actions, Types = [TodoType], Resolver = Some (newResolver repo)\<rparr>"

section \<open>The shipped policies\<close>

datatype action_scope = AnyAction | ActionIn "entity_uid list"

record scope_policy =
  permit_principal_in :: entity_uid
  permit_action :: action_scope

definition base_cedar :: "scope_policy list" where
  "base_cedar = [\<lparr>permit_principal_in = NewEntityUID ''Role'' ''admin'', permit_action = AnyAction\<rparr>]"

definition policy_cedar :: "scope_policy list" where
  "policy_cedar = [\<lparr>permit_principal_in = NewEntityUID ''Role'' ''user'',
     permit_action = ActionIn [NewEntityUID ''Action'' ''todo:create'', NewEntityUID ''Action'' ''todo:read'',
                               NewEntityUID ''Action'' ''todo:update'', NewEntityUID ''Action'' ''todo:list'']\<rparr>]"

section \<open>The Cedar semantics of scopes\<close>

text \<open>The entity hierarchy an assignment of entities gives: an entity is \<open>in\<close> itself and its ancestors.\<close>

definition parent_rel :: "(entity_uid \<Rightarrow> entity \<times> bool) \<Rightarrow> (entity_uid \<times> entity_uid) set" where
  "parent_rel f = {(u, v). snd (f u) \<and> v \<in> set (ent_Parents (fst (f u)))}"

definition entity_in :: "(entity_uid \<Rightarrow> entity \<times> bool) \<Rightarrow> entity_uid \<Rightarrow> entity_uid \<Rightarrow> bool" where
  "entity_in f u v \<longleftrightarrow> (u, v) \<in> (parent_rel f)\<^sup>*"

definition scope_matches :: "(entity_uid \<Rightarrow> entity \<times> bool) \<Rightarrow> cedar_request \<Rightarrow> scope_policy \<Rightarrow> bool" where
  "scope_matches f req pol \<longleftrightarrow>
     entity_in f (req_Principal req) (permit_principal_in pol)
     \<and> (case permit_action pol of AnyAction \<Rightarrow> True | ActionIn as \<Rightarrow> (\<exists>a \<in> set as. entity_in f (req_Action req) a))"

primrec questions :: "'d eval_tree \<Rightarrow> (entity_uid \<Rightarrow> entity \<times> bool) \<Rightarrow> entity_uid list" where
  "questions (Decide d) f = []"
| "questions (Ask u k) f = u # questions (k (f u)) f"

text \<open>
  A request is allowed iff some permit matches (there is no forbid), a denial has no reasons (the
  determining policies of a denial are forbids), and only entities reachable from
  the principal and the action are pulled: the resource is not constrained.  The promise is needed
  for hierarchies of one level only, where no parent has a parent.
\<close>

definition flat :: "(entity_uid \<Rightarrow> entity \<times> bool) \<Rightarrow> bool" where
  "flat f \<longleftrightarrow> (\<forall>u v x. (u, v) \<in> parent_rel f \<longrightarrow> (v, x) \<notin> parent_rel f)"

definition scope_semantics :: "scope_policy cedar_engine \<Rightarrow> bool" where
  "scope_semantics cedar \<longleftrightarrow>
     (\<forall>ps req f. flat f \<longrightarrow> (fst (pure_eval (cedar ps req) f) = Allow \<longleftrightarrow> (\<exists>pol \<in> snd ` set ps. scope_matches f req pol))
        \<and> (fst (pure_eval (cedar ps req) f) \<noteq> Allow \<longrightarrow> snd (pure_eval (cedar ps req) f) = [])
        \<and> (\<forall>u \<in> set (questions (cedar ps req) f). entity_in f (req_Principal req) u \<or> entity_in f (req_Action req) u))"

section \<open>Lemmas\<close>

lemma entity_in_flat: "flat f \<Longrightarrow> entity_in f u v \<longleftrightarrow> u = v \<or> (u, v) \<in> parent_rel f"
proof
  assume "flat f"
  assume "entity_in f u v"
  then have "(u, v) \<in> (parent_rel f)\<^sup>*" by (simp add: entity_in_def)
  then show "u = v \<or> (u, v) \<in> parent_rel f"
  proof (cases rule: rtranclE)
    case (step y)
    then show ?thesis using \<open>flat f\<close> by (metis converse_rtranclE flat_def rtranclE)
  qed simp
qed (auto simp: entity_in_def)

text \<open>
  If the questions an evaluation asks are all answered from memory, in agreement with an assignment
  \<open>f\<close>, then the decision is the one on \<open>f\<close> and the world is untouched.
\<close>

definition answers :: "(string \<times> 'w resolver) list \<Rightarrow> (entity_uid \<Rightarrow> entity \<times> bool) \<Rightarrow> entity_uid \<Rightarrow> bool" where
  "answers routes f u \<longleftrightarrow>
     (case map_of routes (uid_Type u) of
        None \<Rightarrow> f u = (zero_entity, False)
      | Some r \<Rightarrow> (\<forall>w. Resolve r u w = (f u, [], w)))"

lemma Get_answers:
  assumes "answers (byType g) f u" and "\<And>v a. map_of (cache g) v = Some a \<Longrightarrow> a = f v"
  shows "\<exists>g'. Get u g w = (f u, g', w) \<and> byType g' = byType g \<and> firstErr g' = firstErr g
     \<and> (\<forall>v a. map_of (cache g') v = Some a \<longrightarrow> a = f v)"
  using assms by (auto simp: Get_def answers_def Let_def split: option.splits)

lemma run_eval_answers:
  assumes "\<forall>u \<in> set (questions tree f). answers (byType g) f u"
    and "\<And>v a. map_of (cache g) v = Some a \<Longrightarrow> a = f v"
  shows "(\<exists>g'. run_eval tree g w = (pure_eval tree f, g', w))
     \<and> (\<forall>l \<in> set (load_trace tree g w). snd l = [])"
  using assms
proof (induction tree arbitrary: g)
  case (Decide d)
  then show ?case by simp
next
  case (Ask u k)
  from Ask.prems(1) have "answers (byType g) f u" by simp
  from Get_answers [OF this Ask.prems(2)] obtain g' where G: "Get u g w = (f u, g', w)" "byType g' = byType g"
    "\<And>v a. map_of (cache g') v = Some a \<Longrightarrow> a = f v" by blast
  have "\<forall>v \<in> set (questions (k (f u)) f). answers (byType g') f v" using Ask.prems(1) G(2) by simp
  from Ask.IH [OF rangeI this G(3)] G(1) \<open>answers (byType g) f u\<close> show ?case
    by (auto simp: answers_def split: option.splits)
qed

text \<open>The entities a request of principal \<open>p\<close> sees as long as no todo is asked for.\<close>

definition principal_only :: "principal \<Rightarrow> entity_uid \<Rightarrow> entity \<times> bool" where
  "principal_only p u = (if u = UID p then (principal_entity p, True) else (zero_entity, False))"

lemma flat_principal_only:
  assumes "uid_Type (UID p) \<noteq> RoleType"
  shows "flat (principal_only p)"
  using assms
  by (auto simp: flat_def parent_rel_def principal_only_def principal_entity_def roleParents_def set_role_uids
      go_defs split: if_splits option.splits cedar_value.splits)

lemma parent_rel_principal_only:
  "(u, v) \<in> parent_rel (principal_only p) \<longleftrightarrow> u = UID p \<and> v \<in> set (roleParents (Claims p))"
  by (auto simp: parent_rel_def principal_only_def principal_entity_def zero_entity_def)

subsection \<open>The engine over the shipped policies\<close>

text \<open>
  The request's world is the todo store and the key store; each operation acts on its own half.
\<close>

definition on_fst :: "('s \<Rightarrow> 'a \<times> 's) \<Rightarrow> 's \<times> 'k \<Rightarrow> 'a \<times> ('s \<times> 'k)" where
  "on_fst f sk = (case f (fst sk) of (a, s') \<Rightarrow> (a, (s', snd sk)))"

definition on_snd :: "('k \<Rightarrow> 'a \<times> 'k) \<Rightarrow> 's \<times> 'k \<Rightarrow> 'a \<times> ('s \<times> 'k)" where
  "on_snd f sk = (case f (snd sk) of (a, k') \<Rightarrow> (a, (fst sk, k')))"

definition fst_repo :: "'s repository \<Rightarrow> ('s \<times> 'k) repository" where
  "fst_repo R = \<lparr>Save = (\<lambda>t. on_fst (Save R t)), FindByID = (\<lambda>i. on_fst (FindByID R i)),
                 List = (\<lambda>q. on_fst (repository.List R q))\<rparr>"

lemma engine_policies:
  assumes "New basePolicies fs parse [Contribution policy repo] [] = Inr A" and "policy \<noteq> []"
    and "parse ''base.cedar'' basePolicies = Inr base_cedar"
    and "parse ''slice0.cedar'' policy = Inr policy_cedar"
  shows "snd ` set (policies A) = set base_cedar \<union> set policy_cedar"
    and "contributions A = [principalContribution, Contribution policy repo]"
proof -
  have n: "slice_name 0 = ''slice0''" by (simp add: slice_name_def digits_of.simps)
  have "merge_slices parse 0 [Contribution policy repo] (add_policies baseSlice 0 base_cedar []) = Inr (policies A)"
    and c: "contributions A = principalContribution # [Contribution policy repo]"
    using assms(1,3)
    by (auto simp: New_def Let_def loadBasePolicies_def mergePolicies_def baseSlice_def
        simp del: merge_slices.simps split: sum.splits option.splits)
  then have "policies A = [(''base#0'', hd base_cedar), (''slice0#0'', hd policy_cedar)]"
    using assms(2,4) unfolding Contribution_def
    by (simp add: n mergePolicies_def base_cedar_def policy_cedar_def policy_id_def baseSlice_def digits_of.simps)
  then show "snd ` set (policies A) = set base_cedar \<union> set policy_cedar"
    by (auto simp: base_cedar_def policy_cedar_def)
  show "contributions A = [principalContribution, Contribution policy repo]" using c by simp
qed

lemma scope_matches_shipped:
  assumes "uid_Type (UID p) \<noteq> RoleType" and "uid_Type (UID p) \<noteq> actionType"
    and "req_Principal req = UID p" and "uid_Type (req_Action req) = actionType"
  shows "(\<exists>pol \<in> set base_cedar \<union> set policy_cedar. scope_matches (principal_only p) req pol) \<longleftrightarrow>
     NewEntityUID RoleType ''admin'' \<in> set (roleParents (Claims p))
     \<or> NewEntityUID RoleType ''user'' \<in> set (roleParents (Claims p)) \<and> req_Action req \<in> set actions"
proof -
  have "entity_in (principal_only p) (UID p) (NewEntityUID RoleType r) \<longleftrightarrow> NewEntityUID RoleType r \<in> set (roleParents (Claims p))" for r
    using assms(1) by (auto simp: entity_in_flat [OF flat_principal_only [OF assms(1)]] parent_rel_principal_only NewEntityUID_def)
  moreover have "entity_in (principal_only p) (req_Action req) a \<longleftrightarrow> req_Action req = a" for a
    using assms(2,4) by (auto simp: entity_in_flat [OF flat_principal_only [OF assms(1)]] parent_rel_principal_only)
  ultimately show ?thesis
    unfolding scope_matches_def base_cedar_def policy_cedar_def assms(3)
    by (auto simp: actions_def ActionCreate_def ActionRead_def ActionUpdate_def ActionList_def actionType_def RoleType_def)
qed

lemma Contribution_sel [simp]:
  "Types (Contribution policy repo) = [TodoType]" "Resolver (Contribution policy repo) = Some (newResolver repo)"
  by (simp_all add: Contribution_def)

lemma questions_answered:
  assumes "uid_Type (UID p) \<noteq> RoleType" and "uid_Type (UID p) \<noteq> actionType"
    and "uid_Type a = actionType"
    and "entity_in (principal_only p) (UID p) u \<or> entity_in (principal_only p) a u"
  shows "answers (byType (newGetter p [principalContribution, Contribution policy repo])) (principal_only p) u"
proof -
  have plain: "slices_plain p [Contribution policy repo]" "distinct (concat (map Types [Contribution policy repo]))"
    by (simp_all add: slices_plain_def Contribution_def newResolver_def)
  note routes = engine_getter_routes(1) [OF plain, unfolded engine_getter_def]
  have "u = UID p \<or> u = a \<or> uid_Type u = RoleType"
    using assms by (auto simp: entity_in_flat [OF flat_principal_only [OF assms(1)]] parent_rel_principal_only
        roleParents_def set_role_uids NewEntityUID_def split: option.splits cedar_value.splits)
  then show ?thesis
    using assms
    by (auto simp: answers_def routes principal_only_def Let_def principalResolve_def RoleType_def actionType_def
        TodoType_def split: option.splits)
qed

lemma permitted_shipped:
  assumes cedar: "scope_semantics cedar"
    and A: "snd ` set (policies A) = set base_cedar \<union> set policy_cedar"
      "contributions A = [principalContribution, Contribution policy repo]"
    and p: "uid_Type (UID p) \<noteq> RoleType" "uid_Type (UID p) \<noteq> actionType"
    and req: "req_Principal req = UID p" "uid_Type (req_Action req) = actionType"
  shows "\<not> load_failed cedar A p req w \<and> world_after cedar A p req w = w
     \<and> (permitted cedar A p req w \<longleftrightarrow>
          NewEntityUID RoleType ''admin'' \<in> set (roleParents (Claims p))
          \<or> NewEntityUID RoleType ''user'' \<in> set (roleParents (Claims p)) \<and> req_Action req \<in> set actions)
     \<and> (\<not> permitted cedar A p req w \<longrightarrow> reasons_for cedar A p req w = [])"
proof -
  let ?tree = "cedar (policies A) req" and ?f = "principal_only p" and ?g = "newGetter p (contributions A)"
  have sem: "fst (pure_eval ?tree ?f) = Allow \<longleftrightarrow> (\<exists>pol \<in> set base_cedar \<union> set policy_cedar. scope_matches ?f req pol)"
    "\<forall>u \<in> set (questions ?tree ?f). entity_in ?f (UID p) u \<or> entity_in ?f (req_Action req) u"
    "fst (pure_eval ?tree ?f) \<noteq> Allow \<Longrightarrow> snd (pure_eval ?tree ?f) = []"
    using cedar flat_principal_only [OF p(1)] A(1) req(1) unfolding scope_semantics_def by metis+
  have "\<forall>u \<in> set (questions ?tree ?f). answers (byType ?g) ?f u"
    unfolding A(2) using sem(2) questions_answered [OF p req(2)] by blast
  from run_eval_answers [OF this] obtain g' where
    "run_eval ?tree ?g w = (pure_eval ?tree ?f, g', w)" "\<forall>l \<in> set (load_trace ?tree ?g w). snd l = []" by auto
  then show ?thesis
    unfolding scope_matches_shipped [OF p req, symmetric]
    using sem(1,3) by (auto simp: load_failed_def world_after_def permitted_def reasons_for_def Let_def)
qed

text \<open>Whom the shipped policies allow, and what the installed chain answers then.\<close>

definition shipped_allows :: "entity_uid \<Rightarrow> principal \<Rightarrow> bool" where
  "shipped_allows action p \<longleftrightarrow> NewEntityUID RoleType ''admin'' \<in> set (roleParents (Claims p))
     \<or> NewEntityUID RoleType ''user'' \<in> set (roleParents (Claims p)) \<and> action \<in> set actions"

lemma shipped_answer:
  assumes cedar: "scope_semantics cedar"
    and A: "snd ` set (policies (mw_authorizer m)) = set base_cedar \<union> set policy_cedar"
      "contributions (mw_authorizer m) = [principalContribution, Contribution policy repo]"
    and en: "mw_enabled m" and ctx: "hctx_Operation ctx = Some oper" "Metadata oper = Some (Require action ps)" "uid_Type action = ''Action''"
  shows "mw_authenticator m ctx w = (Inl e, w1) \<Longrightarrow>
      run_chain (Install cedar m []) h ctx w = (Problem 401 genericUnauthorized [], log_rejected m e w1)"
    and "mw_authenticator m ctx w = (Inr p, w1) \<Longrightarrow> uid_Type (UID p) \<noteq> RoleType \<Longrightarrow> uid_Type (UID p) \<noteq> actionType \<Longrightarrow>
      run_chain (Install cedar m []) h ctx w = (if shipped_allows action p
        then h (ctx\<lparr>hctx_Context := WithPrincipal (hctx_Context ctx) p\<rparr>) w1 else (deny p, log_denied m ctx p action [] w1))"
proof -
  let ?decl = "\<lparr>decl_kind = KindRequire, decl_action = action, decl_idParam = (case ps of [] \<Rightarrow> [] | p # _ \<Rightarrow> p)\<rparr>"
  have decl: "declarationFrom (Some oper) = Some ?decl" using ctx(2) by simp
  show "run_chain (Install cedar m []) h ctx w = (Problem 401 genericUnauthorized [], log_rejected m e w1)" if "mw_authenticator m ctx w = (Inl e, w1)"
    using chain_answer [OF en ctx(1) that, of cedar h] by simp
  assume p: "mw_authenticator m ctx w = (Inr p, w1)" "uid_Type (UID p) \<noteq> RoleType" "uid_Type (UID p) \<noteq> actionType"
  let ?req = "cedar_request_for ctx p ?decl" and ?A = "mw_authorizer m"
  have "\<not> load_failed cedar ?A p ?req w1 \<and> world_after cedar ?A p ?req w1 = w1
      \<and> (permitted cedar ?A p ?req w1 \<longleftrightarrow> shipped_allows action p)
      \<and> (\<not> permitted cedar ?A p ?req w1 \<longrightarrow> reasons_for cedar ?A p ?req w1 = [])"
    using permitted_shipped [OF cedar A p(2,3), of ?req w1] ctx(3)
    by (simp add: cedar_request_for_def actionType_def shipped_allows_def)
  then show "run_chain (Install cedar m []) h ctx w = (if shipped_allows action p
      then h (ctx\<lparr>hctx_Context := WithPrincipal (hctx_Context ctx) p\<rparr>) w1 else (deny p, log_denied m ctx p action [] w1))"
    using chain_answer [OF en ctx(1) p(1), of cedar h] decl by (simp add: Let_def)
qed

lemma shipped_allows_identity:
  "shipped_allows action (toPrincipal \<lparr>Subject = subject, Roles = roles\<rparr>) \<longleftrightarrow>
     ''admin'' \<in> set roles \<or> ''user'' \<in> set roles \<and> action \<in> {ActionCreate, ActionRead, ActionUpdate, ActionList}"
  by (auto simp: shipped_allows_def toPrincipal_def roleParents_def set_role_uids NewEntityUID_def actions_def)

lemma shipped_anonymous: "\<not> shipped_allows action Anonymous" "deny Anonymous = Problem 401 genericUnauthorized []"
    "uid_Type (UID Anonymous) \<noteq> RoleType" "uid_Type (UID Anonymous) \<noteq> actionType"
  by (simp_all add: shipped_allows_def deny_def IsAnonymous_def Anonymous_def writeErr_def roleParents_def NewEntityUID_def go_defs)

lemma deny_identity: "deny (toPrincipal sr) = Problem 403 genericForbidden []"
    "uid_Type (UID (toPrincipal sr)) \<noteq> RoleType" "uid_Type (UID (toPrincipal sr)) \<noteq> actionType"
  by (simp_all add: deny_def IsAnonymous_def toPrincipal_def writeErr_def NewEntityUID_def go_defs)

text \<open>The whole matrix, whatever world the middleware and the key store live in.\<close>

lemma shipped_matrix:
  assumes "scope_semantics cedar"
    and "snd ` set (policies (mw_authorizer m)) = set base_cedar \<union> set policy_cedar"
      "contributions (mw_authorizer m) = [principalContribution, Contribution policy repo]"
    and "mw_enabled m" and "hctx_Operation ctx = Some oper" and "Metadata oper = Some (Require action ps)"
    and "uid_Type action = ''Action''"
    and auth: "mw_authenticator m ctx w = (fst (Authenticate Lookup ctx k), w)" and healthy: "key_faults k = []"
  shows "run_chain (Install cedar m []) h ctx w =
     (case (credentialFrom ctx, map_of (table_api_keys k) (hashKey (credentialFrom ctx))) of
        ([], _) \<Rightarrow> (Problem 401 genericUnauthorized [], log_denied m ctx Anonymous action [] w)
      | (_, None) \<Rightarrow> (Problem 401 genericUnauthorized [], log_rejected m ErrInvalidKey w)
      | (_, Some (subject, roles)) \<Rightarrow>
          (if ''admin'' \<in> set roles \<or> ''user'' \<in> set roles \<and> action \<in> {ActionCreate, ActionRead, ActionUpdate, ActionList}
           then h (ctx\<lparr>hctx_Context := WithPrincipal (hctx_Context ctx) (toPrincipal \<lparr>Subject = subject, Roles = roles\<rparr>)\<rparr>) w
           else (Problem 403 genericForbidden [],
                 log_denied m ctx (toPrincipal \<lparr>Subject = subject, Roles = roles\<rparr>) action [] w)))"
proof -
  note run = shipped_answer [OF assms(1-7)]
  note auth = auth [unfolded Authenticate_healthy [OF healthy] fst_conv]
  show ?thesis
  proof (cases "credentialFrom ctx")
    case Nil
    with auth have "mw_authenticator m ctx w = (Inr Anonymous, w)" by simp
    from run(2) [OF this] show ?thesis by (simp add: Nil shipped_anonymous)
  next
    case (Cons x xs)
    show ?thesis
    proof (cases "map_of (table_api_keys k) (hashKey (credentialFrom ctx))")
      case None
      with auth Cons have "mw_authenticator m ctx w = (Inl ErrInvalidKey, w)" by simp
      from run(1) [OF this] Cons None show ?thesis by simp
    next
      case (Some sr)
      obtain subject roles where sr: "sr = (subject, roles)" by fastforce
      from auth Cons Some sr have "mw_authenticator m ctx w = (Inr (toPrincipal \<lparr>Subject = subject, Roles = roles\<rparr>), w)" by simp
      from run(2) [OF this deny_identity(2,3)] show ?thesis
        using Some by (auto simp: Cons sr deny_identity(1) shipped_allows_identity)
    qed
  qed
qed

section \<open>Properties\<close>

text \<open>
  C10. The shipped access matrix: with the shipped policies and the API-key authenticator, an operation
  declared with \<open>Require\<close> for an action is reached exactly by keys with the admin role, and for the todo
  actions also by keys with the user role; a known key with neither role gets 403, no key or an
  unknown key gets 401, nobody gets 500, and the decision reads no todo and changes
  nothing; a refusal writes one line to the log, which never holds the credential.
\<close>

theorem todo_access_matrix:
  fixes chain :: "(('s \<times> key_db), 'r) handler \<Rightarrow> (('s \<times> key_db), 'r) handler"
  assumes "scope_semantics cedar"
    and "New basePolicies fs parse [Contribution policy (fst_repo repo)] [] = Inr A" and "policy \<noteq> []"
    and "parse ''base.cedar'' basePolicies = Inr base_cedar" and "parse ''slice0.cedar'' policy = Inr policy_cedar"
    and "m = NewMiddleware (\<lambda>ctx. on_snd (Authenticate Lookup ctx)) A lg True"
    and "chain = run_chain (Install cedar m [])"
    and "hctx_Operation ctx = Some oper" and "Metadata oper = Some (Require action ps)"
    and "uid_Type action = ''Action''" and "key_faults k = []"
  shows "case (credentialFrom ctx, map_of (table_api_keys k) (hashKey (credentialFrom ctx))) of
       ([], _) \<Rightarrow> refused chain ctx (s, k) 401 genericUnauthorized (log_denied m ctx Anonymous action [] (s, k))
     | (_, None) \<Rightarrow> refused chain ctx (s, k) 401 genericUnauthorized (log_rejected m ErrInvalidKey (s, k))
     | (_, Some (subject, roles)) \<Rightarrow>
         (if ''admin'' \<in> set roles \<or> ''user'' \<in> set roles \<and> action \<in> {ActionCreate, ActionRead, ActionUpdate, ActionList}
          then (\<exists>ctx'. reaches chain ctx (s, k) ctx' (s, k)
                  \<and> map_option UID (PrincipalFrom (hctx_Context ctx')) = Some (NewEntityUID ''User'' subject))
          else refused chain ctx (s, k) 403 genericForbidden
                 (log_denied m ctx (toPrincipal \<lparr>Subject = subject, Roles = roles\<rparr>) action [] (s, k)))"
proof -
  have m: "mw_enabled m" "mw_authorizer m = A" "mw_authenticator m ctx (s, k) = (fst (Authenticate Lookup ctx k), (s, k))"
    using assms(6) Authenticate_healthy [OF assms(11), of ctx] by (simp_all add: NewMiddleware_def on_snd_def)
  let ?ctx = "\<lambda>sr. ctx\<lparr>hctx_Context := WithPrincipal (hctx_Context ctx) (toPrincipal sr)\<rparr>"
  have "map_option UID (PrincipalFrom (hctx_Context (?ctx \<lparr>Subject = subject, Roles = roles\<rparr>))) = Some (NewEntityUID ''User'' subject)" for subject roles
    by (simp add: PrincipalFrom_def WithPrincipal_def toPrincipal_def PrincipalType_def)
  then show ?thesis
    unfolding assms(7) refused_def reaches_def
      shipped_matrix [OF assms(1) engine_policies [OF assms(2-5), folded m(2)] m(1) assms(8-10) m(3) assms(11)]
    by (auto split: list.split option.split)
qed

text \<open>An engine with the scope semantics: ask for the principal and the action, then compare.\<close>

definition scope_engine :: "scope_policy cedar_engine" where
  "scope_engine ps req =
     Ask (req_Principal req) (\<lambda>p. Ask (req_Action req) (\<lambda>a. Decide
       (let up = (\<lambda>u (e, ok). u # (if ok then ent_Parents e else []));
            matches = (\<lambda>pol. permit_principal_in pol \<in> set (up (req_Principal req) p)
              \<and> (case permit_action pol of AnyAction \<Rightarrow> True
                  | ActionIn as \<Rightarrow> (\<exists>x \<in> set as. x \<in> set (up (req_Action req) a))))
        in (if (\<exists>pol \<in> snd ` set ps. matches pol) then Allow else Deny, map fst (filter (\<lambda>(i, pol). matches pol) ps)))))"

lemma scope_engine_semantics: "scope_semantics scope_engine"
  unfolding scope_semantics_def
proof (intro allI impI conjI)
  fix ps :: "(string \<times> scope_policy) list" and req f
  assume "flat f"
  note ein = entity_in_flat [OF this]
  have up: "x \<in> set (u # (if snd (f u) then ent_Parents (fst (f u)) else [])) \<longleftrightarrow> entity_in f u x" for u x
    unfolding ein by (auto simp: parent_rel_def)
  show "(fst (pure_eval (scope_engine ps req) f) = Allow) = (\<exists>pol \<in> snd ` set ps. scope_matches f req pol)"
    unfolding scope_engine_def pure_eval.simps Let_def case_prod_unfold up scope_matches_def by simp
  show "snd (pure_eval (scope_engine ps req) f) = []" if "fst (pure_eval (scope_engine ps req) f) \<noteq> Allow"
    using that unfolding scope_engine_def pure_eval.simps Let_def case_prod_unfold by (auto simp: filter_empty_conv split: if_splits)
  show "\<forall>u \<in> set (questions (scope_engine ps req) f). entity_in f (req_Principal req) u \<or> entity_in f (req_Action req) u"
    by (auto simp: scope_engine_def entity_in_def)
qed

definition shipped_parser :: "scope_policy cedar_parser" where
  "shipped_parser file doc = Inr (if file = ''base.cedar'' then base_cedar else policy_cedar)"

definition list_todos_op :: operation where
  "list_todos_op = \<lparr>OperationID = ''list-todos'', op_Method = ''GET'', op_Path = ''/v1/todos'', DefaultStatus = 200,
     op_Errors = [], Metadata = Some (Require ActionList []), Security = []\<rparr>"

theorem todo_access_matrix_witness:
  "\<exists>A chain. New ''b'' no_files shipped_parser [Contribution ''p'' (fst_repo \<lparr>Save = (\<lambda>t n. (None, Suc n)),
        FindByID = (\<lambda>i n. (Inl ErrNotFound, Suc n)), List = (\<lambda>q n. (Inl ErrNotFound, Suc n))\<rparr>)] [] = Inr A
     \<and> chain = run_chain (Install scope_engine (NewMiddleware (\<lambda>ctx. on_snd (Authenticate Lookup ctx)) A (\<lambda>_ _ _ (n, k). (Suc n, k)) True) []
          :: (nat \<times> key_db, nat) middleware list)
     \<and> (\<exists>ctx'. reaches chain ((with_headers [(''X-API-Key'', ''dev-user-key'')])\<lparr>hctx_Operation := Some list_todos_op\<rparr>)
          (0, seeded_keys) ctx' (0, seeded_keys))
     \<and> refused chain ((with_headers [])\<lparr>hctx_Operation := Some list_todos_op\<rparr>) (0, seeded_keys) 401 genericUnauthorized (1, seeded_keys)"
proof -
  let ?repo = "\<lparr>Save = (\<lambda>t n. (None, Suc n)), FindByID = (\<lambda>i n. (Inl ErrNotFound, Suc n)),
    List = (\<lambda>q n. (Inl ErrNotFound, Suc n))\<rparr> :: nat repository"
  let ?k = "(with_headers [(''X-API-Key'', ''dev-user-key'')])\<lparr>hctx_Operation := Some list_todos_op\<rparr>"
  let ?n = "(with_headers [])\<lparr>hctx_Operation := Some list_todos_op\<rparr>"
  have "validateTypeOwnership [Contribution ''p'' (fst_repo ?repo) :: (nat \<times> key_db) contribution] = None"
    by (simp add: validateTypeOwnership_iff types_ok_def reservedTypes_def go_defs)
  then obtain A :: "(nat \<times> key_db, scope_policy) authorizer" where
    A: "New ''b'' no_files shipped_parser [Contribution ''p'' (fst_repo ?repo)] [] = Inr A"
    by (simp add: New_def loadBasePolicies_def mergePolicies_def shipped_parser_def Contribution_def)
  have p: "shipped_parser ''base.cedar'' ''b'' = Inr base_cedar" "shipped_parser ''slice0.cedar'' ''p'' = Inr policy_cedar"
    by (simp_all add: shipped_parser_def)
  have op: "Metadata list_todos_op = Some (Require ActionList [])" "uid_Type ActionList = ''Action''" "key_faults seeded_keys = []"
    by (simp_all add: list_todos_op_def go_defs seeded_keys_def)
  have "trimmed ''dev-user-key''" by code_simp
  then have c: "credentialFrom ?k = ''dev-user-key''" "credentialFrom ?n = []"
    "map_of (table_api_keys seeded_keys) (hashKey ''dev-user-key'') = Some (''dev-user'', [''user''])"
    by (simp_all add: credentialFrom_def with_headers_def hctx_Header_def APIKeyHeader_def TrimSpace_trimmed
        CutPrefix_def starts_with_def bearerPrefix_def seeded_keys_def)
  let ?lg = "\<lambda>_ _ _ (n, k). (Suc n, k)"
  note matrix = todo_access_matrix [OF scope_engine_semantics A _ p refl refl _ op, where ?'r = nat]
  show ?thesis
    using A matrix [of ?k ?lg 0, unfolded c] matrix [of ?n ?lg 0, unfolded c] by (auto simp: op log_denied_def NewMiddleware_def)
qed

end
