(* ===== verification/Base64.thy ===== *)
theory Base64
  imports GoStrings
begin

text \<open>
  \<open>base64.RawURLEncoding\<close> of Go's \<open>encoding/base64\<close>: the URL alphabet without padding.  As in Go, the
  decoder skips carriage returns and newlines and does not insist on zero trailing bits.
\<close>

definition enc6 :: "nat \<Rightarrow> char" where
  "enc6 v =
     (if v < 26 then char_of (65 + v) else if v < 52 then char_of (97 + (v - 26))
      else if v < 62 then char_of (48 + (v - 52)) else if v = 62 then CHR ''-'' else CHR ''_'')"

definition dec6 :: "char \<Rightarrow> nat option" where
  "dec6 c =
     (if between 65 90 c then Some (byte c - 65) else if between 97 122 c then Some (byte c - 97 + 26)
      else if between 48 57 c then Some (byte c - 48 + 52)
      else if c = CHR ''-'' then Some 62 else if c = CHR ''_'' then Some 63 else None)"

fun encode_sextets :: "nat list \<Rightarrow> nat list" where
  "encode_sextets [] = []"
| "encode_sextets [a] = [a div 4, a mod 4 * 16]"
| "encode_sextets [a, b] = [a div 4, a mod 4 * 16 + b div 16, b mod 16 * 4]"
| "encode_sextets (a # b # c # bs) =
     [a div 4, a mod 4 * 16 + b div 16, b mod 16 * 4 + c div 64, c mod 64] @ encode_sextets bs"

fun decode_sextets :: "nat list \<Rightarrow> nat list option" where
  "decode_sextets [] = Some []"
| "decode_sextets [v0] = None"
| "decode_sextets [v0, v1] = Some [v0 * 4 + v1 div 16]"
| "decode_sextets [v0, v1, v2] = Some [v0 * 4 + v1 div 16, v1 mod 16 * 16 + v2 div 4]"
| "decode_sextets (v0 # v1 # v2 # v3 # vs) =
     map_option (\<lambda>bs. [v0 * 4 + v1 div 16, v1 mod 16 * 16 + v2 div 4, v2 mod 4 * 64 + v3] @ bs) (decode_sextets vs)"

definition EncodeToString :: "string \<Rightarrow> string" where
  "EncodeToString s = map enc6 (encode_sextets (map byte s))"

definition DecodeString :: "string \<Rightarrow> string option" where
  "DecodeString s =
     (let cs = filter (\<lambda>c. c \<noteq> CHR 0x0A \<and> c \<noteq> CHR 0x0D) s
      in Option.bind (those (map dec6 cs)) (\<lambda>vs. map_option (map char_of) (decode_sextets vs)))"

lemma dec6_enc6: "v < 64 \<Longrightarrow> dec6 (enc6 v) = Some v"
  by (cases "v = 62"; cases "v = 63") (auto simp: dec6_def enc6_def between_def)

lemma dec6_newline: "dec6 (CHR 0x0A) = None" "dec6 (CHR 0x0D) = None"
  by (simp_all add: dec6_def between_def)

lemma enc6_no_newline: "v < 64 \<Longrightarrow> enc6 v \<noteq> CHR 0x0A \<and> enc6 v \<noteq> CHR 0x0D"
  using dec6_enc6 [of v] dec6_newline by auto

lemma join_split [simp]:
  fixes x y n :: nat
  assumes "y < n"
  shows "(x * n + y) div n = x" "(x * n + y) mod n = y"
  using assms by simp_all

lemma encode_sextets_range: "\<forall>b \<in> set bs. b < 256 \<Longrightarrow> v \<in> set (encode_sextets bs) \<Longrightarrow> v < 64"
proof (induction bs rule: encode_sextets.induct)
  case (2 a)
  moreover have "a mod 4 < 4" by simp
  ultimately show ?case by auto
next
  case (3 a b)
  moreover have "a mod 4 < 4" "b mod 16 < 16" "b div 16 < 16" using "3.prems" by auto
  ultimately show ?case by auto
next
  case (4 a b c bs)
  moreover have "a mod 4 < 4" "b mod 16 < 16" "b div 16 < 16" "c div 64 < 4" "c mod 64 < 64"
    using "4.prems" by auto
  ultimately show ?case by auto
qed auto

lemma div_mult_mod: "(x::nat) div n * n + x mod n = x"
  by simp

lemma decode_encode_sextets: "\<forall>b \<in> set bs. b < 256 \<Longrightarrow> decode_sextets (encode_sextets bs) = Some bs"
proof (induction bs rule: encode_sextets.induct)
  case (3 a b)
  then have "b div 16 < 16" by auto
  then show ?case by simp
next
  case (4 a b c bs)
  then have "b div 16 < 16" "c div 64 < 4" by auto
  with 4 show ?case by simp
qed auto

lemma those_map_Some: "(\<And>x. x \<in> set xs \<Longrightarrow> f (g x) = Some x) \<Longrightarrow> those (map f (map g xs)) = Some xs"
  by (induction xs) auto

text \<open>Decoding undoes encoding, on every byte string.\<close>

lemma DecodeString_EncodeToString [simp]: "DecodeString (EncodeToString s) = Some s"
proof -
  let ?vs = "encode_sextets (map byte s)"
  have bytes: "\<forall>b \<in> set (map byte s). b < (256::nat)" by auto
  have "filter (\<lambda>c. c \<noteq> CHR 0x0A \<and> c \<noteq> CHR 0x0D) (map enc6 ?vs) = map enc6 ?vs"
    using encode_sextets_range [OF bytes] enc6_no_newline by (auto simp: filter_id_conv)
  moreover have "those (map dec6 (map enc6 ?vs)) = Some ?vs"
    using encode_sextets_range [OF bytes] dec6_enc6 by (intro those_map_Some) auto
  moreover have "decode_sextets ?vs = Some (map byte s)" by (rule decode_encode_sextets [OF bytes])
  ultimately show ?thesis by (simp add: DecodeString_def EncodeToString_def comp_def)
qed

lemma EncodeToString_eq_Nil [simp]: "EncodeToString s = [] \<longleftrightarrow> s = []"
  using DecodeString_EncodeToString [of s] DecodeString_EncodeToString [of "[]"]
  by (auto simp: EncodeToString_def)

end
