(* ===== verification/GoTime.thy ===== *)
theory GoTime
  imports GoStrings
begin

text \<open>
  What the program uses of Go's \<open>time\<close> package to put an instant on the wire: the proleptic Gregorian
  calendar, the strict RFC 3339 formatting behind \<open>Time.MarshalJSON\<close> and the RFC 3339 parser behind
  \<open>Time.UnmarshalJSON\<close>.  An instant is the number of nanoseconds since 1970-01-01T00:00:00Z; the
  location of a \<open>time.Time\<close> matters for formatting only and is its offset in minutes.
\<close>

section \<open>Fixed-width decimals\<close>

fun pad :: "nat \<Rightarrow> nat \<Rightarrow> string" where
  "pad 0 n = []"
| "pad (Suc w) n = pad w (n div 10) @ [char_of (48 + n mod 10)]"

definition is_digit :: "char \<Rightarrow> bool" where
  "is_digit c \<longleftrightarrow> between 48 57 c"

definition parseUint :: "string \<Rightarrow> nat \<Rightarrow> nat \<Rightarrow> nat option" where
  "parseUint s lo hi =
     (if list_all is_digit s \<and> lo \<le> of_digits 0 s \<and> of_digits 0 s \<le> hi then Some (of_digits 0 s) else None)"

lemma length_pad [simp]: "length (pad w n) = w"
  by (induction w arbitrary: n) auto

lemma is_digit_pad: "list_all is_digit (pad w n)"
proof (induction w arbitrary: n)
  case (Suc w)
  have "n mod 10 < 10" by simp
  with Suc show ?case by (simp add: is_digit_def between_def)
qed simp

lemma of_digits_pad: "n < 10 ^ w \<Longrightarrow> of_digits 0 (pad w n) = n"
proof (induction w arbitrary: n)
  case (Suc w)
  have "n mod 10 < 10" by simp
  moreover have "n div 10 < 10 ^ w" using Suc.prems by (simp add: less_mult_imp_div_less mult.commute)
  ultimately show ?case using Suc.IH [of "n div 10"] by (simp add: of_digits_append)
qed simp

lemma parseUint_pad [simp]: "n < 10 ^ w \<Longrightarrow> lo \<le> n \<Longrightarrow> n \<le> hi \<Longrightarrow> parseUint (pad w n) lo hi = Some n"
  by (simp add: parseUint_def is_digit_pad of_digits_pad)

section \<open>The calendar\<close>

definition leap :: "nat \<Rightarrow> bool" where
  "leap y \<longleftrightarrow> y mod 4 = 0 \<and> (y mod 100 \<noteq> 0 \<or> y mod 400 = 0)"

definition year_len :: "nat \<Rightarrow> nat" where
  "year_len y = (if leap y then 366 else 365)"

definition month_len :: "nat \<Rightarrow> nat \<Rightarrow> nat" where
  "month_len y m = (if m = 2 then (if leap y then 29 else 28) else if m \<in> {4, 6, 9, 11} then 30 else 31)"

text \<open>Find the period that holds day \<open>d\<close>, counting periods of the given lengths from \<open>i\<close>.\<close>

fun scan :: "(nat \<Rightarrow> nat) \<Rightarrow> nat \<Rightarrow> nat \<Rightarrow> nat \<Rightarrow> nat \<times> nat" where
  "scan f 0 i d = (i, d)"
| "scan f (Suc k) i d = (if d < f i then (i, d) else scan f k (Suc i) (d - f i))"

text \<open>Days are counted from 0000-01-01; 400 years have 146097 days.\<close>

definition date_of_days :: "nat \<Rightarrow> nat \<times> nat \<times> nat" where
  "date_of_days d =
     (let (y, r) = scan year_len 400 0 (d mod 146097); year = 400 * (d div 146097) + y;
          (m, day) = scan (month_len year) 12 1 r
      in (year, m, Suc day))"

definition days_of_date :: "nat \<Rightarrow> nat \<Rightarrow> nat \<Rightarrow> nat" where
  "days_of_date y m day =
     146097 * (y div 400) + sum_list (map year_len [0..<y mod 400]) + sum_list (map (month_len y) [1..<m]) + (day - 1)"

lemma scan_spec:
  "d < sum_list (map f [i..<i + k]) \<Longrightarrow> scan f k i d = (j, r) \<Longrightarrow>
   i \<le> j \<and> j < i + k \<and> r < f j \<and> d = sum_list (map f [i..<j]) + r"
proof (induction f k i d arbitrary: j r rule: scan.induct)
  case (2 f k i d)
  show ?case
  proof (cases "d < f i")
    case True
    with 2 show ?thesis by auto
  next
    case False
    have "[i..<i + Suc k] = i # [Suc i..<Suc i + k]" by (simp add: upt_conv_Cons)
    then have "d - f i < sum_list (map f [Suc i..<Suc i + k])" using "2.prems"(1) False by simp
    with 2 False have IH: "Suc i \<le> j \<and> j < Suc i + k \<and> r < f j \<and> d - f i = sum_list (map f [Suc i..<j]) + r" by simp
    then have "[i..<j] = i # [Suc i..<j]" by (simp add: upt_conv_Cons)
    with IH False show ?thesis by auto
  qed
qed simp

lemma sum_year_len:
  "sum_list (map year_len [0..<n]) + (n + 99) div 100 = 365 * n + (n + 3) div 4 + (n + 399) div 400"
proof (induction n)
  case (Suc n)
  have step: "(Suc n + (k - 1)) div k = (n + (k - 1)) div k + (if n mod k = 0 then 1 else 0)" if "0 < k" for k
  proof -
    have "Suc (n + (k - 1)) = n + k" using that by simp
    then have "Suc (n + (k - 1)) mod k = n mod k" by simp
    then show ?thesis by (simp add: div_Suc)
  qed
  have "n mod 400 = 0 \<Longrightarrow> n mod 100 = 0" "n mod 100 = 0 \<Longrightarrow> n mod 4 = 0"
    using mod_mod_cancel [of 100 400 n] mod_mod_cancel [of 4 100 n] by simp_all
  then have len: "year_len n + (if n mod 100 = 0 then 1 else 0)
      = 365 + (if n mod 4 = 0 then 1 else 0) + (if n mod 400 = 0 then 1 else 0)"
    by (auto simp: year_len_def leap_def)
  have split: "sum_list (map year_len [0..<Suc n]) = sum_list (map year_len [0..<n]) + year_len n" by simp
  have "(Suc n + 3) div 4 = (n + 3) div 4 + (if n mod 4 = 0 then 1 else 0)"
    "(Suc n + 99) div 100 = (n + 99) div 100 + (if n mod 100 = 0 then 1 else 0)"
    "(Suc n + 399) div 400 = (n + 399) div 400 + (if n mod 400 = 0 then 1 else 0)"
    using step [of 4] step [of 100] step [of 400] by simp_all
  then show ?case unfolding split mult_Suc_right using Suc.IH len by (simp only: add_ac)
qed simp

lemma year_cycle: "sum_list (map year_len [0..<400]) = 146097"
  using sum_year_len [of 400] by simp

lemma leap_mod: "leap (400 * c + y) = leap y"
proof -
  have "(400 * c + y) mod 4 = y mod 4" "(400 * c + y) mod 100 = y mod 100" "(400 * c + y) mod 400 = y mod 400"
    using mod_mult_self4 [of 4 "100 * c" y] mod_mult_self4 [of 100 "4 * c" y] by simp_all
  then show ?thesis by (simp add: leap_def)
qed

lemma months_of_year: "sum_list (map (month_len y) [1..<13]) = year_len y"
proof -
  have "[1..<13] = [1, 2, 3, 4, 5, 6, 7, 8, 9, 10, 11, 12::nat]" by (simp add: upt_rec)
  then show ?thesis by (simp add: month_len_def year_len_def)
qed

lemma date_of_days_spec:
  assumes "date_of_days d = (y, m, day)"
  shows "days_of_date y m day = d" "1 \<le> m" "m \<le> 12" "1 \<le> day" "day \<le> month_len y m"
    "y div 400 = d div 146097"
proof -
  obtain yy r where yr: "scan year_len 400 0 (d mod 146097) = (yy, r)" by fastforce
  obtain mm dd where md: "scan (month_len (400 * (d div 146097) + yy)) 12 1 r = (mm, dd)" by fastforce
  have eq: "y = 400 * (d div 146097) + yy" "m = mm" "day = Suc dd"
    using assms yr md by (simp_all add: date_of_days_def)
  have Y: "yy < 400" "r < year_len yy" "d mod 146097 = sum_list (map year_len [0..<yy]) + r"
    using scan_spec [OF _ yr] by (simp_all add: year_cycle)
  have len: "year_len y = year_len yy" by (simp add: year_len_def eq leap_mod)
  then have "r < sum_list (map (month_len y) [1..<1 + 12])" using months_of_year [of y] Y(2) by simp
  from scan_spec [OF this] md eq have D: "1 \<le> m" "m < 13" "dd < month_len y m" "r = sum_list (map (month_len y) [1..<m]) + dd"
    by auto
  then show "1 \<le> m" "m \<le> 12" "1 \<le> day" "day \<le> month_len y m" using eq by auto
  show c: "y div 400 = d div 146097" using eq(1) Y(1) by simp
  have "y mod 400 = yy" using eq(1) Y(1) by simp
  then have "days_of_date y m day = 146097 * (d div 146097) + d mod 146097"
    unfolding days_of_date_def c Y(3) using D(4) eq(3) by simp
  then show "days_of_date y m day = d" by simp
qed

lemma date_of_days_year: "d < 3652425 \<Longrightarrow> date_of_days d = (y, m, day) \<Longrightarrow> y < 10000"
  using date_of_days_spec(6) [of d y m day] less_mult_imp_div_less [of d 25 146097] div_less_iff_less_mult [of 400 y 25]
  by simp

section \<open>RFC 3339\<close>

definition Day :: duration where
  [go_defs]: "Day = 86400 * Second"

text \<open>1970-01-01 is day 719528; the years 0 to 9999 are the days below 3652425.\<close>

definition unix_day :: int where
  [go_defs]: "unix_day = 719528"

definition appendNano :: "nat \<Rightarrow> string" where
  "appendNano ns =
     (if ns = 0 then [] else CHR ''.'' # rev (dropWhile (\<lambda>c. c = CHR ''0'') (rev (pad 9 ns))))"

definition format_zone :: "int \<Rightarrow> string" where
  "format_zone off =
     (if off = 0 then ''Z''
      else (if off < 0 then CHR ''-'' else CHR ''+'') # pad 2 (nat \<bar>off\<bar> div 60) @ CHR '':'' # pad 2 (nat \<bar>off\<bar> mod 60))"

text \<open>\<open>appendStrictRFC3339\<close>: \<open>None\<close> is its error, a year or zone out of range.\<close>

definition appendStrictRFC3339 :: "int \<Rightarrow> time \<Rightarrow> string option" where
  "appendStrictRFC3339 off t =
     (let l = t + off * Minute; d = l div Day + unix_day; r = nat (l mod Day);
          sod = r div 1000000000; ns = r mod 1000000000
      in if d < 0 \<or> d \<ge> 3652425 \<or> \<bar>off\<bar> \<ge> 1440 then None
         else case date_of_days (nat d) of
           (y, m, day) \<Rightarrow>
             Some (pad 4 y @ CHR ''-'' # pad 2 m @ CHR ''-'' # pad 2 day @ CHR ''T''
               # pad 2 (sod div 3600) @ CHR '':'' # pad 2 (sod mod 3600 div 60) @ CHR '':'' # pad 2 (sod mod 60)
               @ appendNano ns @ format_zone off))"

text \<open>\<open>parseNanoseconds\<close> on the digits after the dot: at most nine of them count.\<close>

definition parseNanoseconds :: "string \<Rightarrow> nat" where
  "parseNanoseconds ds = (let us = take 9 ds in of_digits 0 us * 10 ^ (9 - length us))"

definition parse_zone :: "string \<Rightarrow> int option" where
  "parse_zone s =
     (if s = ''Z'' then Some 0
      else if length s \<noteq> 6 then None
      else case (parseUint (take 2 (drop 1 s)) 0 23, parseUint (take 2 (drop 4 s)) 0 59) of
        (Some hr, Some mm) \<Rightarrow>
          (if (s ! 0 = CHR ''-'' \<or> s ! 0 = CHR ''+'') \<and> s ! 3 = CHR '':'' then
             Some (if s ! 0 = CHR ''-'' then - int (hr * 60 + mm) else int (hr * 60 + mm))
           else None)
      | _ \<Rightarrow> None)"

definition parse_fraction :: "string \<Rightarrow> nat \<times> string" where
  "parse_fraction s =
     (case s of
        c # d # _ \<Rightarrow> (if c = CHR ''.'' \<and> is_digit d
                     then (parseNanoseconds (takeWhile is_digit (tl s)), dropWhile is_digit (tl s)) else (0, s))
      | _ \<Rightarrow> (0, s))"

definition time_of_fields :: "nat \<Rightarrow> nat \<Rightarrow> nat \<Rightarrow> nat \<Rightarrow> nat \<Rightarrow> nat \<Rightarrow> nat \<Rightarrow> int \<Rightarrow> time" where
  "time_of_fields y m day h mi sec ns off =
     (int (days_of_date y m day) - unix_day) * Day + int (h * 3600 + mi * 60 + sec) * Second + int ns - off * Minute"

definition parseRFC3339 :: "string \<Rightarrow> time option" where
  "parseRFC3339 s =
     (if length s < 19 then None
      else case (parseUint (take 4 s) 0 9999, parseUint (take 2 (drop 5 s)) 1 12) of
        (Some y, Some m) \<Rightarrow>
          (case (parseUint (take 2 (drop 8 s)) 1 (month_len y m), parseUint (take 2 (drop 11 s)) 0 23,
                 parseUint (take 2 (drop 14 s)) 0 59, parseUint (take 2 (drop 17 s)) 0 59) of
             (Some day, Some h, Some mi, Some sec) \<Rightarrow>
               (if s ! 4 = CHR ''-'' \<and> s ! 7 = CHR ''-'' \<and> s ! 10 = CHR ''T'' \<and> s ! 13 = CHR '':'' \<and> s ! 16 = CHR '':''
                then (case parse_fraction (drop 19 s) of
                        (ns, zone) \<Rightarrow> map_option (time_of_fields y m day h mi sec ns) (parse_zone zone))
                else None)
           | _ \<Rightarrow> None)
      | _ \<Rightarrow> None)"

lemma appendStrictRFC3339_form:
  assumes "appendStrictRFC3339 off t = Some s"
  obtains y m day h mi sec ns where
    "s = pad 4 y @ CHR ''-'' # pad 2 m @ CHR ''-'' # pad 2 day @ CHR ''T''
       # pad 2 h @ CHR '':'' # pad 2 mi @ CHR '':'' # pad 2 sec @ appendNano ns @ format_zone off"
proof -
  obtain y m day where "date_of_days (nat ((t + off * Minute) div Day + unix_day)) = (y, m, day)"
    by (metis prod_cases3)
  with assms that show ?thesis by (auto simp: appendStrictRFC3339_def Let_def split: if_splits)
qed

subsection \<open>Round trip\<close>

lemma parse_format_zone: "\<bar>off\<bar> < 1440 \<Longrightarrow> parse_zone (format_zone off) = Some off"
proof -
  assume "\<bar>off\<bar> < 1440"
  then have n: "nat \<bar>off\<bar> < 24 * 60" by simp
  then have h: "nat \<bar>off\<bar> div 60 < 24" by (rule less_mult_imp_div_less)
  have m: "nat \<bar>off\<bar> mod 60 < 60" by simp
  have "nat \<bar>off\<bar> div 60 * 60 + nat \<bar>off\<bar> mod 60 = nat \<bar>off\<bar>" by simp
  with h m show ?thesis by (auto simp: parse_zone_def format_zone_def nth_append)
qed

lemma of_digits_zeros: "of_digits acc (replicate k (CHR ''0'')) = acc * 10 ^ k"
  by (induction k arbitrary: acc) auto

lemma format_zone_hd: "\<exists>c z. format_zone off = c # z \<and> \<not> is_digit c \<and> c \<noteq> CHR ''.''"
  by (auto simp: format_zone_def is_digit_def between_def)

lemma trailing_zeros:
  "\<exists>ds k. rev (dropWhile (\<lambda>c. c = CHR ''0'') (rev s)) = ds \<and> s = ds @ replicate k (CHR ''0'')"
proof -
  let ?P = "\<lambda>c. c = CHR ''0''"
  have "takeWhile ?P (rev s) = replicate (length (takeWhile ?P (rev s))) (CHR ''0'')"
    using set_takeWhileD [of _ ?P "rev s"] by (intro replicate_eqI) auto
  moreover have "rev s = takeWhile ?P (rev s) @ dropWhile ?P (rev s)" by simp
  then have "s = rev (dropWhile ?P (rev s)) @ rev (takeWhile ?P (rev s))" by (metis rev_append rev_rev_ident)
  ultimately show ?thesis by (metis rev_replicate)
qed

lemma parse_fraction_appendNano:
  assumes "ns < 1000000000"
  shows "parse_fraction (appendNano ns @ format_zone off) = (ns, format_zone off)"
proof (cases "ns = 0")
  case True
  then show ?thesis using format_zone_hd [of off] by (auto simp: appendNano_def parse_fraction_def split: list.split)
next
  case False
  obtain ds k where ds: "rev (dropWhile (\<lambda>c. c = CHR ''0'') (rev (pad 9 ns))) = ds" "pad 9 ns = ds @ replicate k (CHR ''0'')"
    using trailing_zeros by blast
  have val: "of_digits 0 ds * 10 ^ k = ns"
    using of_digits_pad [of ns 9] assms by (simp add: ds(2) of_digits_append of_digits_zeros)
  have len: "length ds + k = 9" using length_pad [of 9 ns] by (simp add: ds(2))
  have dig: "list_all is_digit ds" using is_digit_pad [of 9 ns] by (simp add: ds(2))
  have "ds \<noteq> []" using val False by auto
  then obtain d ds' where cons: "ds = d # ds'" by (cases ds) auto
  obtain c z where z: "format_zone off = c # z" "\<not> is_digit c" using format_zone_hd by blast
  have "takeWhile is_digit (ds @ format_zone off) = ds" "dropWhile is_digit (ds @ format_zone off) = format_zone off"
    using dig z by (simp_all add: takeWhile_append dropWhile_append list_all_iff)
  moreover have "parseNanoseconds ds = ns"
    using val len by (simp add: parseNanoseconds_def) (metis add_diff_cancel_left')
  moreover have "is_digit d" using dig cons by simp
  ultimately show ?thesis
    using False ds(1) by (simp add: appendNano_def parse_fraction_def cons)
qed

lemma parse_append:
  assumes "appendStrictRFC3339 off t = Some s"
  shows "parseRFC3339 s = Some t"
proof -
  define l where "l = t + off * Minute"
  define d where "d = l div Day + unix_day"
  define r where "r = nat (l mod Day)"
  define sod where "sod = r div 1000000000"
  define ns where "ns = r mod 1000000000"
  obtain y m day where date: "date_of_days (nat d) = (y, m, day)" by (metis prod_cases3)
  from assms have rng: "0 \<le> d" "d < 3652425" "\<bar>off\<bar> < 1440"
    and s: "s = pad 4 y @ CHR ''-'' # pad 2 m @ CHR ''-'' # pad 2 day @ CHR ''T''
               # pad 2 (sod div 3600) @ CHR '':'' # pad 2 (sod mod 3600 div 60) @ CHR '':'' # pad 2 (sod mod 60)
               @ appendNano ns @ format_zone off"
    by (auto simp: appendStrictRFC3339_def Let_def date [unfolded d_def l_def] l_def d_def r_def sod_def ns_def split: if_splits)
  note spec = date_of_days_spec [OF date]
  have "y < 10000" using date_of_days_year [OF _ date] rng by simp
  have "month_len y m \<le> 31" by (simp add: month_len_def)
  have Dpos: "(0::int) < Day" by (simp add: go_defs)
  have "r < 86400 * 1000000000"
    using pos_mod_bound [OF Dpos, of l] pos_mod_sign [OF Dpos, of l] by (simp add: r_def go_defs)
  then have "sod < 86400" by (simp add: sod_def less_mult_imp_div_less)
  then have f: "sod div 3600 < 24" "sod mod 3600 div 60 < 60" "sod mod 60 < 60" "ns < 1000000000"
    by (simp_all add: less_mult_imp_div_less ns_def)
  have "parseRFC3339 s = map_option (time_of_fields y m day (sod div 3600) (sod mod 3600 div 60) (sod mod 60) ns) (Some off)"
    unfolding parseRFC3339_def s
    using \<open>y < 10000\<close> spec(2-5) \<open>month_len y m \<le> 31\<close> f rng(3)
    by (simp add: nth_append parse_fraction_appendNano parse_format_zone)
  moreover have "time_of_fields y m day (sod div 3600) (sod mod 3600 div 60) (sod mod 60) ns off = t"
  proof -
    have "sod div 3600 * 3600 + sod mod 3600 div 60 * 60 + sod mod 60 = sod"
      using mod_mod_cancel [of 60 3600 sod] div_mult_mod_eq [of "sod mod 3600" 60] by (simp add: add.assoc)
    then have "time_of_fields y m day (sod div 3600) (sod mod 3600 div 60) (sod mod 60) ns off
        = (d - unix_day) * Day + (int sod * Second + int ns) - off * Minute"
      using spec(1) rng(1) by (simp add: time_of_fields_def)
    also have "int sod * Second + int ns = int r"
      unfolding sod_def ns_def Second_def by (simp add: zdiv_int zmod_int)
    also have "int r = l mod Day" using pos_mod_sign [OF Dpos, of l] by (simp add: r_def)
    finally show ?thesis by (simp add: d_def l_def)
  qed
  ultimately show ?thesis by simp
qed

end
