(* ===== verification/TodoHttp.thy ===== *)
theory TodoHttp
  imports TodoService TodoAuthz Base64 GoTime GoJson
begin

text \<open>
  The HTTP slice of the todo resource, \<open>internal/todo/httpapi\<close>: the operations \<open>Register\<close> mounts, the
  four handlers, the translation of errors and the opaque pagination tokens of \<open>cursor.go\<close>.

  Request decoding and validation belong to Huma; the handlers start from the decoded input.  A handler
  takes the method of the service it calls, so it runs on the use cases of \<open>TodoService\<close> over a store
  as well as on the methods of the service object.  Of
  \<open>encoding/json\<close>, marshalling the cursor payload is modelled in full; unmarshalling is modelled on
  the documents of the shape marshalling produces, and \<open>json_other\<close> stands for what the decoder makes
  of any other document.
\<close>

section \<open>Errors (errors.go)\<close>

record huma_error =
  err_status :: nat
  err_detail :: string
  err_errors :: "go_error list"

definition huma_err :: "nat \<Rightarrow> string \<Rightarrow> go_error list \<Rightarrow> huma_error" where
  "huma_err status detail errs = \<lparr>err_status = status, err_detail = detail, err_errors = errs\<rparr>"

definition toHumaError :: "go_error \<Rightarrow> huma_error" where
  "toHumaError e =
     (if errors_Is e ErrNotFound then huma_err 404 ''todo not found'' []
      else if errors_Is e ErrInvalidTitle then huma_err 422 ''invalid todo'' [e]
      else if errors_Is e ErrInvalidCursor then huma_err 422 ''invalid cursor'' []
      else huma_err 500 ''internal server error'' [])"

section \<open>DTOs (dto.go, mapping.go)\<close>

record todo_dto =
  dto_ID :: string
  dto_Title :: string
  dto_Status :: string
  dto_CreatedAt :: time
  dto_CompletedAt :: "time option"

text \<open>The inputs of the operations as Huma fills them; their validation tags are Huma's to enforce.\<close>

record create_todo_input =
  in_Title :: string

record get_todo_input =
  in_GetID :: string

record complete_todo_input =
  in_CompleteID :: string

record list_todos_input =
  in_Limit :: int
  in_Cursor :: string

record list_output =
  out_Todos :: "todo_dto list"
  out_NextCursor :: string

definition toTodoDTO :: "todo \<Rightarrow> todo_dto" where
  "toTodoDTO t = \<lparr>dto_ID = ID t, dto_Title = Title t, dto_Status = Status t,
                  dto_CreatedAt = CreatedAt t, dto_CompletedAt = CompletedAt t\<rparr>"

fun toTodoDTOs :: "todo list \<Rightarrow> todo_dto list" where
  "toTodoDTOs [] = []"
| "toTodoDTOs (t # ts) = toTodoDTO t # toTodoDTOs ts"

section \<open>Cursor tokens (cursor.go)\<close>

definition errInvalidCursor :: go_error where
  [go_defs]: "errInvalidCursor = Sentinel ''httpapi.errInvalidCursor'' ''invalid cursor''"

text \<open>\<open>json.Marshal(cursorPayload{...})\<close> of an instant in a location \<open>off\<close> minutes east of UTC.\<close>

definition Marshal_cursor :: "int \<Rightarrow> time \<Rightarrow> string \<Rightarrow> string option" where
  "Marshal_cursor off t i =
     map_option (\<lambda>ts. CHR 0x7B # json_string ''t'' @ CHR '':'' # CHR 0x22 # ts @ CHR 0x22 # CHR '','' # json_string ''id'' @ CHR '':'' #
        json_string i @ [CHR 0x7D]) (appendStrictRFC3339 off t)"

type_synonym json_decoder = "string \<Rightarrow> (time \<times> string) option"

definition canonical_payload :: json_decoder where
  "canonical_payload raw =
     (case CutPrefix raw (CHR 0x7B # json_string ''t'' @ [CHR '':'', CHR 0x22]) of
        (_, False) \<Rightarrow> None
      | (rest, True) \<Rightarrow>
          (case Cut rest (CHR 0x22) of
             (ts, rest', _) \<Rightarrow>
               (case CutPrefix rest' (CHR '','' # json_string ''id'' @ [CHR '':'', CHR 0x22]) of
                  (_, False) \<Rightarrow> None
                | (rest'', True) \<Rightarrow>
                    (case Cut rest'' (CHR 0x22) of
                       (i, end, _) \<Rightarrow>
                         if list_all json_plain i \<and> end = [CHR 0x7D]
                         then map_option (\<lambda>t. (t, i)) (parseRFC3339 ts) else None))))"

definition Unmarshal_cursor :: "json_decoder \<Rightarrow> json_decoder" where
  "Unmarshal_cursor json_other raw =
     (case canonical_payload raw of Some p \<Rightarrow> Some p | None \<Rightarrow> json_other raw)"

definition encodeCursor :: "int \<Rightarrow> cursor option \<Rightarrow> string" where
  "encodeCursor off c =
     (case c of
        None \<Rightarrow> []
      | Some cur \<Rightarrow>
          (let raw = (case Marshal_cursor off (cur_CreatedAt cur) (cur_ID cur) of None \<Rightarrow> [] | Some raw \<Rightarrow> raw)
           in EncodeToString raw))"

definition decodeCursor :: "json_decoder \<Rightarrow> string \<Rightarrow> cursor option result" where
  "decodeCursor json_other token =
     (if token = [] then Inr None
      else case DecodeString token of
        None \<Rightarrow> Inl errInvalidCursor
      | Some raw \<Rightarrow>
          (case Unmarshal_cursor json_other raw of
             None \<Rightarrow> Inl errInvalidCursor
           | Some (t, i) \<Rightarrow>
               (if i = [] \<or> t = zero_time then Inl errInvalidCursor
                else Inr (Some \<lparr>cur_CreatedAt = t, cur_ID = i\<rparr>))))"

section \<open>Handlers (handler.go)\<close>

type_synonym 'a huma_result = "huma_error + 'a"

definition http_create :: "(string \<Rightarrow> 's \<Rightarrow> todo result \<times> 's) \<Rightarrow> string \<Rightarrow> 's \<Rightarrow> todo_dto huma_result \<times> 's" where
  "http_create create title s =
     (case create title s of
        (Inl e, s') \<Rightarrow> (Inl (toHumaError e), s')
      | (Inr created, s') \<Rightarrow> (Inr (toTodoDTO created), s'))"

definition http_get :: "(string \<Rightarrow> 's \<Rightarrow> todo result \<times> 's) \<Rightarrow> string \<Rightarrow> 's \<Rightarrow> todo_dto huma_result \<times> 's" where
  "http_get get i s =
     (case get i s of
        (Inl e, s') \<Rightarrow> (Inl (toHumaError e), s')
      | (Inr found, s') \<Rightarrow> (Inr (toTodoDTO found), s'))"

definition http_list :: "int \<Rightarrow> json_decoder \<Rightarrow> (page_query \<Rightarrow> 's \<Rightarrow> page_result result \<times> 's) \<Rightarrow> int \<Rightarrow> string \<Rightarrow> 's
    \<Rightarrow> list_output huma_result \<times> 's" where
  "http_list off json_other list_page limit token s =
     (case decodeCursor json_other token of
        Inl e \<Rightarrow> (Inl (huma_err 422 ''invalid cursor'' []), s)
      | Inr after \<Rightarrow>
          (case list_page \<lparr>Limit = limit, After = after\<rparr> s of
             (Inl e, s') \<Rightarrow> (Inl (toHumaError e), s')
           | (Inr result, s') \<Rightarrow>
               (Inr \<lparr>out_Todos = toTodoDTOs (Todos result), out_NextCursor = encodeCursor off (Next result)\<rparr>, s')))"

definition http_complete :: "(string \<Rightarrow> 's \<Rightarrow> todo result \<times> 's) \<Rightarrow> string \<Rightarrow> 's \<Rightarrow> todo_dto huma_result \<times> 's" where
  "http_complete complete i s =
     (case complete i s of
        (Inl e, s') \<Rightarrow> (Inl (toHumaError e), s')
      | (Inr completed, s') \<Rightarrow> (Inr (toTodoDTO completed), s'))"

section \<open>Registration\<close>

definition todoIDParam :: string where
  [go_defs]: "todoIDParam = ''id''"

definition Register :: "operation list" where
  "Register =
     [\<lparr>OperationID = ''create-todo'', op_Method = ''POST'', op_Path = ''/todos'', DefaultStatus = 201, op_Errors = [],
       Metadata = Some (Require ActionCreate []), Security = []\<rparr>,
      \<lparr>OperationID = ''list-todos'', op_Method = ''GET'', op_Path = ''/todos'', DefaultStatus = 0, op_Errors = [],
       Metadata = Some (Require ActionList []), Security = []\<rparr>,
      \<lparr>OperationID = ''get-todo'', op_Method = ''GET'', op_Path = ''/todos/{id}'', DefaultStatus = 0, op_Errors = [404],
       Metadata = Some (Require ActionRead [todoIDParam]), Security = []\<rparr>,
      \<lparr>OperationID = ''complete-todo'', op_Method = ''POST'', op_Path = ''/todos/{id}/complete'', DefaultStatus = 0, op_Errors = [404],
       Metadata = Some (Require ActionUpdate [todoIDParam]), Security = []\<rparr>]"

section \<open>Lemmas\<close>

lemma toTodoDTOs_map: "toTodoDTOs ts = map toTodoDTO ts"
  by (induction ts) auto

subsection \<open>Tokens\<close>

lemma json_string_keys [simp]:
  "json_string ''t'' = [CHR 0x22, CHR ''t'', CHR 0x22]"
  "json_string ''id'' = [CHR 0x22, CHR ''i'', CHR ''d'', CHR 0x22]"
  by (simp_all add: json_string_def json_body_plain json_plain_def)

lemma quote_pad: "CHR 0x22 \<notin> set (pad w n)"
  using is_digit_pad [of w n] by (auto simp: list_all_iff is_digit_def between_def)

lemma quote_appendNano: "CHR 0x22 \<notin> set (appendNano ns)"
  using quote_pad [of 9 ns] set_dropWhileD [of "CHR 0x22" _ "rev (pad 9 ns)"] by (auto simp: appendNano_def)

lemma quote_zone: "CHR 0x22 \<notin> set (format_zone off)"
  by (simp add: format_zone_def quote_pad)

lemma quote_RFC3339: "appendStrictRFC3339 off t = Some s \<Longrightarrow> CHR 0x22 \<notin> set s"
  by (erule appendStrictRFC3339_form) (simp add: quote_pad quote_appendNano quote_zone)

lemma CutPrefix_append [simp]: "CutPrefix (p @ s) p = (s, True)"
  by (simp add: CutPrefix_def starts_with_def)

lemma canonical_payload_Marshal:
  assumes "Marshal_cursor off t i = Some raw" and "list_all json_plain i"
  shows "canonical_payload raw = Some (t, i)"
proof -
  let ?q = "CHR 0x22"
  let ?p1 = "CHR 0x7B # json_string ''t'' @ [CHR '':'', ?q]" and ?p2 = "CHR '','' # json_string ''id'' @ [CHR '':'', ?q]"
  from assms(1) obtain ts where ts: "appendStrictRFC3339 off t = Some ts"
    and "raw = CHR 0x7B # json_string ''t'' @ CHR '':'' # CHR 0x22 # ts @ CHR 0x22 # CHR '','' # json_string ''id'' @ CHR '':'' #
        json_string i @ [CHR 0x7D]" by (auto simp: Marshal_cursor_def)
  then have raw: "raw = ?p1 @ (ts @ ?q # (?p2 @ (i @ ?q # [CHR 0x7D])))"
    using json_body_plain [OF assms(2)] by (simp add: json_string_def [of i])
  have "?q \<notin> set i" using assms(2) by (auto simp: list_all_iff json_plain_def)
  then have c2: "Cut (i @ ?q # [CHR 0x7D]) ?q = (i, [CHR 0x7D], True)" by (simp add: Cut_found)
  have c1: "Cut (ts @ ?q # (?p2 @ (i @ ?q # [CHR 0x7D]))) ?q = (ts, ?p2 @ (i @ ?q # [CHR 0x7D]), True)"
    using quote_RFC3339 [OF ts] Cut_found by blast
  show ?thesis
    unfolding canonical_payload_def raw CutPrefix_append prod.case bool.case c1 c2
    using assms(2) parse_append [OF ts] by simp
qed

lemma decode_encode:
  assumes "appendStrictRFC3339 off (cur_CreatedAt c) \<noteq> None" and "list_all json_plain (cur_ID c)"
    and "cur_ID c \<noteq> []" and "cur_CreatedAt c \<noteq> zero_time"
  shows "decodeCursor json_other (encodeCursor off (Some c)) = Inr (Some c)" and "encodeCursor off (Some c) \<noteq> []"
proof -
  from assms(1) obtain raw where raw: "Marshal_cursor off (cur_CreatedAt c) (cur_ID c) = Some raw"
    by (auto simp: Marshal_cursor_def)
  have tok: "encodeCursor off (Some c) = EncodeToString raw" using raw by (simp add: encodeCursor_def)
  have "raw \<noteq> []" using raw by (auto simp: Marshal_cursor_def)
  have dec: "DecodeString (EncodeToString raw) = Some raw" by (rule DecodeString_EncodeToString)
  then show "encodeCursor off (Some c) \<noteq> []" using tok \<open>raw \<noteq> []\<close> by (auto simp: DecodeString_def)
  with canonical_payload_Marshal [OF raw assms(2)] dec tok assms(3,4)
  show "decodeCursor json_other (encodeCursor off (Some c)) = Inr (Some c)"
    by (simp add: decodeCursor_def Unmarshal_cursor_def)
qed

text \<open>A cursor whose token comes back: an instant JSON can carry, and a non-empty plain id.\<close>

definition token_ok :: "int \<Rightarrow> cursor \<Rightarrow> bool" where
  "token_ok off c \<longleftrightarrow> appendStrictRFC3339 off (cur_CreatedAt c) \<noteq> None \<and> cur_CreatedAt c \<noteq> zero_time
     \<and> cur_ID c \<noteq> [] \<and> list_all json_plain (cur_ID c)"

lemma decode_encode_opt:
  "(case c of None \<Rightarrow> True | Some c' \<Rightarrow> token_ok off c') \<Longrightarrow> decodeCursor json_other (encodeCursor off c) = Inr c"
  using decode_encode(1) by (cases c) (auto simp: token_ok_def decodeCursor_def encodeCursor_def)

subsection \<open>Following tokens\<close>

text \<open>A client that copies \<open>nextCursor\<close> back until it is absent; \<open>None\<close> is running out of \<open>fuel\<close> pages.\<close>

fun http_walk :: "(string \<Rightarrow> 's \<Rightarrow> list_output huma_result \<times> 's) \<Rightarrow> nat \<Rightarrow> string \<Rightarrow> 's
    \<Rightarrow> todo_dto list list huma_result option \<times> 's" where
  "http_walk list_op 0 token s = (None, s)"
| "http_walk list_op (Suc fuel) token s =
     (case list_op token s of
        (Inl e, s') \<Rightarrow> (Some (Inl e), s')
      | (Inr out, s') \<Rightarrow>
          (if out_NextCursor out = [] then (Some (Inr [out_Todos out]), s')
           else case http_walk list_op fuel (out_NextCursor out) s' of
             (Some (Inr ps), s'') \<Rightarrow> (Some (Inr (out_Todos out # ps)), s'')
           | r \<Rightarrow> r))"

context todo_repository
begin

lemma Service_List_Next:
  assumes "inv s" and "Service_List R q s = (Inr p, s')" and "Next p = Some c"
  shows "\<exists>t \<in> set (listing s). c = cursor_of t"
proof -
  let ?n = "nat (clampLimit (Limit q))"
  let ?w = "window (rank pos) (map_option (cursor_rank pos ts) (After q)) (listing s)"
  have p: "p = list_spec pos ts (q\<lparr>Limit := clampLimit (Limit q)\<rparr>) (listing s)"
    using Service_List_page(1) [OF assms(1,2)] .
  with assms(3) have "?n < length ?w" and c: "c = cursor_of (last (take ?n ?w))"
    by (auto simp: list_spec_def keyset_page_def Let_def split: if_splits)
  moreover have "0 < ?n" using clampLimit_range [of "Limit q"] by simp
  ultimately have "last (take ?n ?w) \<in> set ?w" by (metis in_set_takeD last_in_set length_greater_0_conv list.size(3) not_less_zero take_eq_Nil)
  then have "last (take ?n ?w) \<in> set (listing s)" by (auto simp: window_def split: option.splits)
  with c show ?thesis by blast
qed

lemma Service_List_frame:
  "inv s \<Longrightarrow> Service_List R q s = (r, s') \<Longrightarrow> inv s' \<and> contents s' = contents s \<and> listing s' = listing s"
  using List_frame by (fastforce simp: Service_List_def split: prod.splits sum.splits)

lemma http_walk_eq:
  assumes "\<forall>t \<in> set (listing s). token_ok off (cursor_of t)"
    and "inv s" and "case c of None \<Rightarrow> True | Some c' \<Rightarrow> token_ok off c'"
    and "repo_walk (Service_List R) n fuel c s = (Some (Inr ps), s')"
  shows "http_walk (http_list off json_other (Service_List R) n) fuel (encodeCursor off c) s = (Some (Inr (map toTodoDTOs ps)), s')"
  using assms
proof (induction fuel arbitrary: c s ps)
  case 0
  then show ?case by simp
next
  case (Suc fuel)
  obtain r s1 where L: "Service_List R \<lparr>Limit = n, After = c\<rparr> s = (r, s1)" by fastforce
  with Suc.prems(4) obtain p where r: "r = Inr p" by (cases r) auto
  note frame = Service_List_frame [OF Suc.prems(2) L]
  have H: "http_list off json_other (Service_List R) n (encodeCursor off c) s =
      (Inr \<lparr>out_Todos = toTodoDTOs (Todos p), out_NextCursor = encodeCursor off (Next p)\<rparr>, s1)"
    using L r decode_encode_opt [OF Suc.prems(3)] by (simp add: http_list_def)
  show ?case
  proof (cases "Next p")
    case None
    with Suc.prems(4) L r H show ?thesis by (auto simp: encodeCursor_def)
  next
    case (Some c')
    with Service_List_Next [OF Suc.prems(2), of "\<lparr>Limit = n, After = c\<rparr>" p s1 c'] L r Suc.prems(1)
    have ok: "token_ok off c'" by auto
    then have "encodeCursor off (Some c') \<noteq> []" using decode_encode(2) by (simp add: token_ok_def)
    moreover from Some Suc.prems(4) L r obtain ps' where
      "repo_walk (Service_List R) n fuel (Some c') s1 = (Some (Inr ps'), s')" "ps = Todos p # ps'"
      by (auto split: prod.splits option.splits sum.splits)
    moreover from Suc.IH [of s1 "Some c'" ps'] this frame ok Suc.prems(1)
    have "http_walk (http_list off json_other (Service_List R) n) fuel (encodeCursor off (Some c')) s1 = (Some (Inr (map toTodoDTOs ps')), s')"
      by simp
    ultimately show ?thesis using H Some by simp
  qed
qed

text \<open>Which errors a handler can return, on any store that keeps the contract of the port.\<close>

lemma http_get_error:
  assumes "inv s" and "http_get (Service_Get R) x s = (Inl e, s')"
  shows "e = huma_err 500 ''internal server error'' [] \<and> \<not> healthy s
     \<or> e = huma_err 404 ''todo not found'' [] \<and> Option.bind (pos x) (contents s) = None"
proof -
  from assms(2) obtain er where F: "FindByID R x s = (Inl er, s')" and e: "e = toHumaError (Errorf ''find todo: %w'' [] er)"
    by (auto simp: http_get_def Service_Get_def split: prod.splits sum.splits)
  show ?thesis using Find_err [OF assms(1) F] Find_healthy [OF assms(1) _ F] e
    by (auto simp: toHumaError_def backend_failure_def)
qed

lemma http_complete_error:
  assumes "inv s" and "http_complete (Service_Complete R now) x s = (Inl e, s')"
  shows "e = huma_err 500 ''internal server error'' [] \<and> \<not> healthy s
     \<or> e = huma_err 404 ''todo not found'' [] \<and> Option.bind (pos x) (contents s) = None"
proof -
  obtain r s1 where F: "FindByID R x s = (r, s1)" by fastforce
  show ?thesis
  proof (cases r)
    case (Inl er)
    with F assms(2) have "e = toHumaError (Errorf ''find todo: %w'' [] er)"
      by (auto simp: http_complete_def Service_Complete_def)
    with Find_err [OF assms(1)] Find_healthy [OF assms(1)] F Inl show ?thesis
      by (fastforce simp: toHumaError_def backend_failure_def)
  next
    case (Inr t)
    from Find_ok [OF assms(1), of x t s1] F Inr obtain i where i: "pos x = Some i" "contents s i = Some t"
      by (auto simp: bind_eq_Some_conv)
    from F Inr assms(2) obtain er where S: "Save R (Complete t now) s1 = (Some er, s')"
      and e: "e = toHumaError (Errorf ''save todo: %w'' [] er)"
      by (auto simp: http_complete_def Service_Complete_def Let_def split: prod.splits option.splits)
    have "inv s1" using Find_frame [OF assms(1) F] by simp
    with Save_err S e have "e = huma_err 500 ''internal server error'' []"
      by (fastforce simp: toHumaError_def backend_failure_def)
    moreover have "\<not> healthy s"
      using complete_healthy [OF assms(1) _ i, of now] assms(2) by (auto simp: http_complete_def)
    ultimately show ?thesis by blast
  qed
qed

lemma http_create_error:
  assumes "inv s" and "http_create (Service_Create R new_id now) title s = (Inl e, s')"
  shows "e = huma_err 500 ''internal server error'' []
       \<and> (\<exists>t. NewTodo new_id title now = Inr t \<and> \<not> (healthy s \<and> storable t))
     \<or> err_status e = 422 \<and> s' = s \<and> (\<exists>er. NewTodo new_id title now = Inl er)"
proof (cases "NewTodo new_id title now")
  case (Inl er)
  then have "errors_Is er ErrInvalidTitle" by (cases rule: NewTodo_cases [of title new_id now]) auto
  with Inl assms(2) show ?thesis
    by (auto simp: http_create_def Service_Create_def toHumaError_def huma_err_def NewTodo_def Let_def split: if_splits)
next
  case (Inr t)
  obtain er where S: "Save R t s = (Some er, s')" and e: "e = toHumaError (Errorf ''save todo: %w'' [] er)"
    using assms(2) unfolding http_create_def Service_Create_def Inr sum.case
    by (auto split: prod.splits option.splits)
  with Save_err [OF assms(1) S] Save_healthy [OF assms(1), of t] Inr show ?thesis
    by (auto simp: toHumaError_def backend_failure_def)
qed

lemma http_list_error:
  assumes "inv s" and "http_list off json_other (Service_List R) n token s = (Inl e, s')"
  shows "e = huma_err 500 ''internal server error'' [] \<and> \<not> healthy s
     \<or> e = huma_err 422 ''invalid cursor'' []
       \<and> (case decodeCursor json_other token of Inr (Some c) \<Rightarrow> pos (cur_ID c) = None | Inr None \<Rightarrow> False | Inl _ \<Rightarrow> True)"
proof (cases "decodeCursor json_other token")
  case (Inl er)
  with assms(2) show ?thesis by (auto simp: http_list_def)
next
  case (Inr after)
  let ?q = "\<lparr>Limit = clampLimit n, After = after\<rparr>"
  from assms(2) Inr obtain er where L: "List R ?q s = (Inl er, s')" and e: "e = toHumaError (Errorf ''list todos: %w'' [] er)"
    by (auto simp: http_list_def Service_List_def split: prod.splits sum.splits)
  have q: "0 < Limit ?q" "Limit ?q \<le> MaxPageSize" using clampLimit_range [of n] by simp_all
  show ?thesis
    using List_err [OF assms(1) q L] List_healthy [OF assms(1) _ q L] e Inr
    by (auto simp: toHumaError_def backend_failure_def)
qed

end

section \<open>Properties\<close>

text \<open>
  C2. Pagination tokens are faithful: for a position with an instant in the years 0 to 9999 other than
  the zero time and a non-empty id of plain characters (as every uuid is), decoding the token gives
  the position back, in every time zone, and the token is never empty.
\<close>

theorem cursor_token_roundtrip:
  assumes "appendStrictRFC3339 off (cur_CreatedAt c) \<noteq> None" and "cur_CreatedAt c \<noteq> zero_time"
    and "cur_ID c \<noteq> []" and "list_all json_plain (cur_ID c)"
  shows "decodeCursor json_other (encodeCursor off (Some c)) = Inr (Some c) \<and> encodeCursor off (Some c) \<noteq> []"
  using decode_encode [OF assms(1,4,3,2)] by blast

theorem cursor_token_roundtrip_witness:
  "decodeCursor (\<lambda>_. None) (encodeCursor 120 (Some \<lparr>cur_CreatedAt = 1709210096789000000, cur_ID = ''11111111-1111''\<rparr>))
     = Inr (Some \<lparr>cur_CreatedAt = 1709210096789000000, cur_ID = ''11111111-1111''\<rparr>)"
proof -
  have "appendStrictRFC3339 120 1709210096789000000 \<noteq> None"
    by (simp add: appendStrictRFC3339_def Let_def go_defs split: prod.splits)
  moreover have "list_all json_plain ''11111111-1111''" by (simp add: json_plain_def)
  ultimately show ?thesis
    using cursor_token_roundtrip [of 120 "\<lparr>cur_CreatedAt = 1709210096789000000, cur_ID = ''11111111-1111''\<rparr>" "\<lambda>_. None"]
    by (simp add: zero_time_def)
qed

text \<open>
  C1. Paging over HTTP is complete: on a PostgreSQL store that does not fail, whose uuids print as
  plain characters and whose creation times JSON can carry, a client that follows \<open>nextCursor\<close> from
  the first page until it is absent receives exactly the stored todos, each once, in
  \<open>(created_at, id)\<close> order, whatever page size from 1 to 100 it asks for.
\<close>

theorem pg_http_pagination_complete:
  assumes "pg_inv E db" and "pg_healthy db" and "0 < n" and "n \<le> MaxPageSize"
    and "length (table_todos db) < fuel"
    and "\<forall>u. uuid_String E u \<noteq> [] \<and> list_all json_plain (uuid_String E u)"
    and "\<forall>r \<in> snd ` set (table_todos db). appendStrictRFC3339 off (row_CreatedAt r) \<noteq> None \<and> row_CreatedAt r \<noteq> zero_time"
  shows "\<exists>pages db'. http_walk (http_list off json_other (Service_List (pg_repo E)) n) fuel [] db = (Some (Inr pages), db')
     \<and> concat pages = map toTodoDTO (pg_listing E db) \<and> distinct (concat pages)
     \<and> (\<forall>p \<in> set pages. int (length p) \<le> n)"
proof -
  have "token_ok off (cursor_of t)" if "t \<in> set (pg_listing E db)" for t
  proof -
    from that obtain r where "r \<in> snd ` set (table_todos db)" "t = to_todo E r" by (auto simp: pg_listing_def)
    with assms(6,7) show ?thesis by (auto simp: token_ok_def cursor_of_def to_todo_def)
  qed
  then have ok: "\<forall>t \<in> set (pg_listing E db). token_ok off (cursor_of t)" by blast
  have len: "length (pg_listing E db) < fuel" using assms(5) by (simp add: pg_listing_def)
  obtain ps db' where ps: "repo_walk (Service_List (pg_repo E)) n fuel None db = (Some (Inr ps), db')"
    "concat ps = pg_listing E db" "\<forall>p \<in> set ps. int (length p) \<le> n"
    using pg.service_walk_all [OF assms(1-4) len] by blast
  have "http_walk (http_list off json_other (Service_List (pg_repo E)) n) fuel (encodeCursor off None) db = (Some (Inr (map toTodoDTOs ps)), db')"
    using pg.http_walk_eq [OF ok assms(1) _ ps(1)] by simp
  moreover have all: "concat (map toTodoDTOs ps) = map toTodoDTO (pg_listing E db)"
    by (simp add: toTodoDTOs_map [abs_def] map_concat [symmetric] ps(2))
  moreover have "distinct (map toTodoDTO (pg_listing E db))"
    using strictly_sorted_distinct [OF pg_listing_sorted [OF assms(1)]]
    by (auto simp: distinct_map inj_on_def toTodoDTO_def)
  ultimately show ?thesis using ps(3) by (fastforce simp: encodeCursor_def toTodoDTOs_map)
qed

lemma decimal_plain: "uuid_String decimal_env u \<noteq> [] \<and> list_all json_plain (uuid_String decimal_env u)"
proof -
  have "json_plain c" if "between 48 57 c" for c
  proof -
    have b: "48 \<le> byte c" "byte c \<le> 57" using that by (simp_all add: between_def)
    have "c \<noteq> d" if "byte d < 48 \<or> 57 < byte d" for d using b that by auto
    from this [of "CHR 0x22"] this [of "CHR 0x5C"] this [of "CHR ''<''"] this [of "CHR ''>''"] this [of "CHR ''&''"] b
    show ?thesis by (simp add: json_plain_def)
  qed
  then show ?thesis using digits_of_digit by (auto simp: decimal_env_def list_all_iff)
qed

theorem pg_http_pagination_complete_witness:
  "\<exists>pages db'. http_walk (http_list 0 (\<lambda>_. None) (Service_List (pg_repo decimal_env)) 2) 4 [] decimal_db = (Some (Inr pages), db')
     \<and> map dto_ID (concat pages) = [''9'', ''5'', ''7'']"
proof -
  have len: "length (table_todos decimal_db) < 4" by (simp add: decimal_db_def)
  have n: "(0::int) < 2" "(2::int) \<le> MaxPageSize" by (simp_all add: MaxPageSize_def)
  have u: "\<forall>u. uuid_String decimal_env u \<noteq> [] \<and> list_all json_plain (uuid_String decimal_env u)" using decimal_plain by blast
  have "appendStrictRFC3339 0 t \<noteq> None \<and> t \<noteq> zero_time" if "t \<in> {1000, 2000}" for t
    using that by (auto simp: appendStrictRFC3339_def Let_def go_defs split: prod.splits)
  then have r: "\<forall>r \<in> snd ` set (table_todos decimal_db). appendStrictRFC3339 0 (row_CreatedAt r) \<noteq> None \<and> row_CreatedAt r \<noteq> zero_time"
    by (simp add: decimal_db_def)
  from pg_http_pagination_complete [OF pg_inv_decimal pg_healthy_decimal n len u r, of "\<lambda>_. None"]
  obtain pages db' where p: "http_walk (http_list 0 (\<lambda>_. None) (Service_List (pg_repo decimal_env)) 2) 4 [] decimal_db = (Some (Inr pages), db')"
    "concat pages = map toTodoDTO (pg_listing decimal_env decimal_db)" by blast
  have "map dto_ID (concat pages) = map ID (pg_listing decimal_env decimal_db)" by (simp add: p(2) toTodoDTO_def)
  with p(1) pg_listing_decimal show ?thesis by auto
qed





end
