(* ===== verification/TodoUseCases.thy ===== *)
theory TodoUseCases
  imports TodoService GoHttp
begin

text \<open>
  The \<open>Service\<close> object of \<open>internal/todo/service.go\<close>: its construction with options, and its methods
  on the world of HTTP, where the clock is read, an id is generated and a line is logged through the
  logger of the request.  \<open>uuid.NewString\<close> is a parameter.  The use cases themselves are those of
  \<open>TodoService\<close>.
\<close>

section \<open>Construction\<close>

record 'w service =
  svc_repo :: "'w world repository"
  svc_logger :: logger
  svc_now :: "'w world \<Rightarrow> time"
  svc_newID :: "'w world \<Rightarrow> string"

definition WithClock :: "('w world \<Rightarrow> time) \<Rightarrow> 'w service \<Rightarrow> 'w service" where
  "WithClock now s = s\<lparr>svc_now := now\<rparr>"

definition WithIDGenerator :: "('w world \<Rightarrow> string) \<Rightarrow> 'w service \<Rightarrow> 'w service" where
  "WithIDGenerator new_id s = s\<lparr>svc_newID := new_id\<rparr>"

definition NewService :: "('w world \<Rightarrow> string) \<Rightarrow> 'w world repository \<Rightarrow> logger option \<Rightarrow> ('w service \<Rightarrow> 'w service) list \<Rightarrow> 'w service" where
  "NewService uuid_NewString repo lg opts =
     fold (\<lambda>opt. opt) opts
       \<lparr>svc_repo = repo, svc_logger = (case lg of None \<Rightarrow> discard_logger | Some l \<Rightarrow> l), svc_now = w_now, svc_newID = uuid_NewString\<rparr>"

definition loggerFor :: "'w service \<Rightarrow> request_ctx \<Rightarrow> logger" where
  "loggerFor s ctx = (case From ctx of Some logger \<Rightarrow> logger | None \<Rightarrow> svc_logger s)"

section \<open>Methods\<close>

text \<open>The line a method writes when it succeeded.\<close>

definition log_done :: "'w service \<Rightarrow> request_ctx \<Rightarrow> string \<Rightarrow> todo result \<times> 'w world \<Rightarrow> todo result \<times> 'w world" where
  "log_done s ctx msg r =
     (case r of
        (Inl e, w) \<Rightarrow> (Inl e, w)
      | (Inr t, w) \<Rightarrow> (Inr t, log_to (loggerFor s ctx) LevelInfo msg [(''todo_id'', LString (ID t))] w))"

definition svc_Create :: "'w service \<Rightarrow> request_ctx \<Rightarrow> string \<Rightarrow> 'w world \<Rightarrow> todo result \<times> 'w world" where
  "svc_Create s ctx title w = log_done s ctx ''todo created'' (Service_Create (svc_repo s) (svc_newID s w) (svc_now s w) title w)"

definition svc_Get :: "'w service \<Rightarrow> request_ctx \<Rightarrow> string \<Rightarrow> 'w world \<Rightarrow> todo result \<times> 'w world" where
  "svc_Get s ctx i w = Service_Get (svc_repo s) i w"

definition svc_List :: "'w service \<Rightarrow> request_ctx \<Rightarrow> page_query \<Rightarrow> 'w world \<Rightarrow> page_result result \<times> 'w world" where
  "svc_List s ctx page w = Service_List (svc_repo s) page w"

definition svc_Complete :: "'w service \<Rightarrow> request_ctx \<Rightarrow> string \<Rightarrow> 'w world \<Rightarrow> todo result \<times> 'w world" where
  "svc_Complete s ctx i w = log_done s ctx ''todo completed'' (Service_Complete (svc_repo s) (svc_now s w) i w)"

section \<open>Lemmas\<close>

text \<open>Logging changes nothing but the log.\<close>

lemma log_done_result [simp]: "fst (log_done s ctx msg r) = fst r" "w_app (snd (log_done s ctx msg r)) = w_app (snd r)"
  by (auto simp: log_done_def split: prod.split sum.split)

lemma log_done_log:
  "logs_at (loggerFor s ctx) LevelInfo \<Longrightarrow>
   w_log (snd (log_done s ctx msg (r, w))) =
     w_log w @ (case r of Inl e \<Rightarrow> [] | Inr t \<Rightarrow> [\<lparr>le_scope = lg_scope (loggerFor s ctx), le_level = LevelInfo, le_msg = msg,
       le_attrs = [(''todo_id'', LString (ID t))]\<rparr>])"
  by (auto simp: log_done_def log_to_def split: sum.split)

lemma NewService_fields:
  "svc_repo (NewService uuid repo lg []) = repo" "svc_now (NewService uuid repo lg []) = w_now" "svc_newID (NewService uuid repo lg []) = uuid"
  by (simp_all add: NewService_def)

end
