(* ===== verification/App.thy ===== *)
theory App
  imports HttpAdapter Postgres Config TodoHttp TodoUseCases
begin

text \<open>
  The composition root, \<open>internal/app/app.go\<close>: which repository and authenticator are wired, the hooks
  that install the middleware, the order of construction with what each failure leaves open, the servers
  with their timeouts, and the server-less OpenAPI export.

  The application's state is the todo store, the API-key store and the rate limiter, each in its part
  of the world.  Everything outside the repository is in \<open>app_env\<close>.  Huma decodes and validates the
  input of an operation (\<open>decode_create\<close> and its siblings, one per input type).
\<close>

section \<open>The application's world\<close>

record ('s, 'k, 'b) app_state =
  as_store :: 's
  as_keys :: 'k
  as_limiter :: "'b in_memory"

type_synonym ('s, 'k, 'b) app_world = "('s, 'k, 'b) app_state world"

definition on_store :: "('s \<Rightarrow> 'a \<times> 's) \<Rightarrow> ('s, 'k, 'b) app_world \<Rightarrow> 'a \<times> ('s, 'k, 'b) app_world" where
  "on_store f w = (case f (as_store (w_app w)) of (a, s) \<Rightarrow> (a, w\<lparr>w_app := (w_app w)\<lparr>as_store := s\<rparr>\<rparr>))"

definition on_keys :: "('k \<Rightarrow> 'a \<times> 'k) \<Rightarrow> ('s, 'k, 'b) app_world \<Rightarrow> 'a \<times> ('s, 'k, 'b) app_world" where
  "on_keys f w = (case f (as_keys (w_app w)) of (a, s) \<Rightarrow> (a, w\<lparr>w_app := (w_app w)\<lparr>as_keys := s\<rparr>\<rparr>))"

definition on_limiter :: "('b in_memory \<Rightarrow> 'a \<times> 'b in_memory) \<Rightarrow> ('s, 'k, 'b) app_world \<Rightarrow> 'a \<times> ('s, 'k, 'b) app_world" where
  "on_limiter f w = (case f (as_limiter (w_app w)) of (a, s) \<Rightarrow> (a, w\<lparr>w_app := (w_app w)\<lparr>as_limiter := s\<rparr>\<rparr>))"

definition world_repo :: "'s repository \<Rightarrow> ('s, 'k, 'b) app_world repository" where
  "world_repo R = \<lparr>Save = (\<lambda>t. on_store (Save R t)), FindByID = (\<lambda>i. on_store (FindByID R i)),
                   List = (\<lambda>q. on_store (repository.List R q))\<rparr>"

datatype api_reply = TodoOut todo_dto | ListOut list_output

record ('s, 'k, 'b, 'v, 'p) app_env =
  http :: "(('s, 'k, 'b) app_state, api_reply) http_libs"
  servemux_other :: "('s, 'k, 'b) app_state http_handler"
  pgx :: pgx_lib
  pg_store :: "'s repository"
  pg_store_Ping :: "'s \<Rightarrow> go_error option \<times> 's"
  key_store :: "'k api_key_store"
  rate :: "('b, 'v) rate_lib"
  rate_clock :: "('s, 'k, 'b) app_world \<Rightarrow> check_clock"
  float_round :: "rat \<Rightarrow> rat"
  cedar_Authorize :: "'p cedar_engine"
  cedar_parse :: "'p cedar_parser"
  base_policies :: string
  todo_policy :: string
  policy_fs :: file_system
  otel_sdk :: otel_lib
  newID :: "('s, 'k, 'b) app_world \<Rightarrow> string"
  json_decoding :: json_decoder
  local_offset :: int
  decode_create :: "operation \<Rightarrow> huma_ctx \<Rightarrow> huma_error + create_todo_input"
  decode_get :: "operation \<Rightarrow> huma_ctx \<Rightarrow> huma_error + get_todo_input"
  decode_list :: "operation \<Rightarrow> huma_ctx \<Rightarrow> huma_error + list_todos_input"
  decode_complete :: "operation \<Rightarrow> huma_ctx \<Rightarrow> huma_error + complete_todo_input"
  DowngradeYAML :: "openapi_doc \<Rightarrow> string result"

section \<open>Resources mounted on the API\<close>

definition reply_of :: "('a \<Rightarrow> api_reply) \<Rightarrow> 'a huma_result \<Rightarrow> api_reply reply" where
  "reply_of out r = (case r of Inl e \<Rightarrow> Problem (err_status e) (err_detail e) [] | Inr x \<Rightarrow> Response (out x))"

definition operation_handler :: "(operation \<Rightarrow> huma_ctx \<Rightarrow> huma_error + 'i)
    \<Rightarrow> (request_ctx \<Rightarrow> 'i \<Rightarrow> ('s, 'k, 'b) app_world \<Rightarrow> api_reply reply \<times> ('s, 'k, 'b) app_world)
    \<Rightarrow> operation \<Rightarrow> (('s, 'k, 'b) app_world, api_reply) handler" where
  "operation_handler decode run oper ctx w =
     (case decode oper ctx of
        Inl e \<Rightarrow> (Problem (err_status e) (err_detail e) [], w)
      | Inr inp \<Rightarrow> run (hctx_Context ctx) inp w)"

definition todo_handlers :: "('s, 'k, 'b, 'v, 'p) app_env \<Rightarrow> ('s, 'k, 'b) app_state service
    \<Rightarrow> (operation \<Rightarrow> (('s, 'k, 'b) app_world, api_reply) handler) list" where
  "todo_handlers env svc =
     [operation_handler (decode_create env) (\<lambda>ctx inp w. apfst (reply_of TodoOut) (http_create (svc_Create svc ctx) (in_Title inp) w)),
      operation_handler (decode_list env) (\<lambda>ctx inp w. apfst (reply_of ListOut)
        (http_list (local_offset env) (json_decoding env) (svc_List svc ctx) (in_Limit inp) (in_Cursor inp) w)),
      operation_handler (decode_get env) (\<lambda>ctx inp w. apfst (reply_of TodoOut) (http_get (svc_Get svc ctx) (in_GetID inp) w)),
      operation_handler (decode_complete env) (\<lambda>ctx inp w. apfst (reply_of TodoOut) (http_complete (svc_Complete svc ctx) (in_CompleteID inp) w))]"

definition apiVersionV1 :: string where [go_defs]: "apiVersionV1 = ''/v1''"

definition registerResources :: "('s, 'k, 'b, 'v, 'p) app_env \<Rightarrow> ('s, 'k, 'b) app_state service \<Rightarrow> (('s, 'k, 'b) app_state, api_reply) api_hook" where
  "registerResources env svc = register_all apiVersionV1 (map (\<lambda>(oper, h). (oper, h oper)) (zip Register (todo_handlers env svc)))"

section \<open>Options\<close>

record ('s, 'k, 'b) options =
  opt_repo :: "'s repository option"
  opt_authenticator :: "('s, 'k, 'b) app_world authenticate_fn option"

definition WithRepository :: "'s repository \<Rightarrow> ('s, 'k, 'b) options \<Rightarrow> ('s, 'k, 'b) options" where
  "WithRepository repo os = os\<lparr>opt_repo := Some repo\<rparr>"

definition WithAuthenticator :: "('s, 'k, 'b) app_world authenticate_fn \<Rightarrow> ('s, 'k, 'b) options \<Rightarrow> ('s, 'k, 'b) options" where
  "WithAuthenticator authenticator os = os\<lparr>opt_authenticator := Some authenticator\<rparr>"

section \<open>Wiring\<close>

definition resolveStore :: "('s, 'k, 'b, 'v, 'p) app_env \<Rightarrow> config \<Rightarrow> 's repository option \<Rightarrow> resources
    \<Rightarrow> ('s repository \<times> pool_config option \<times> ('s, 'k, 'b) app_state readiness_check list) result \<times> resources" where
  "resolveStore env cfg injected res =
     (case injected of
        Some R \<Rightarrow> (Inr (R, None, []), res)
      | None \<Rightarrow>
          (case Connect (pgx env) \<lparr>pg_URL = DatabaseURL cfg, pg_MaxConns = DBMaxConns cfg, pg_Tracing = TracingEnabled cfg\<rparr> res of
             (Inl e, res') \<Rightarrow> (Inl (Errorf ''connect postgres: %w'' [] e), res')
           | (Inr pool, res') \<Rightarrow>
               (Inr (pg_store env, Some pool, [\<lparr>rc_Name = ''postgres'', rc_Check = (\<lambda>ctx. on_store (pg_store_Ping env))\<rparr>]), res')))"

text \<open>A nil authenticator is \<open>None\<close>; it is returned only when the middleware is disabled.\<close>

definition resolveAuthenticator :: "('s, 'k, 'b, 'v, 'p) app_env \<Rightarrow> config \<Rightarrow> pool_config option
    \<Rightarrow> ('s, 'k, 'b) app_world authenticate_fn option \<Rightarrow> ('s, 'k, 'b) app_world authenticate_fn option result" where
  "resolveAuthenticator env cfg pool injected =
     (if injected \<noteq> None then Inr injected
      else if AuthzEnabled cfg \<and> pool = None
        then Inl (ErrorString ''authz-enabled requires a database connection for the api-key store'')
      else if pool = None then Inr None
      else Inr (Some (\<lambda>ctx. on_keys (Authenticate (key_store env) ctx))))"

definition nil_authenticator :: "'w authenticate_fn" where
  "nil_authenticator ctx w = (Inl (ErrorString ''nil authenticator''), w)"

definition authz_middleware :: "'w world authenticate_fn option \<Rightarrow> ('w world, 'p) authorizer \<Rightarrow> config \<Rightarrow> logger \<Rightarrow> ('w world, 'p) authz_mw" where
  "authz_middleware authenticator A cfg lg =
     NewMiddleware (case authenticator of Some f \<Rightarrow> f | None \<Rightarrow> nil_authenticator) A (log_to lg) (AuthzEnabled cfg)"

definition authzInstaller :: "('s, 'k, 'b, 'v, 'p) app_env \<Rightarrow> config \<Rightarrow> 's repository \<Rightarrow> pool_config option \<Rightarrow> logger
    \<Rightarrow> ('s, 'k, 'b) app_world authenticate_fn option
    \<Rightarrow> ((('s, 'k, 'b) app_state, api_reply) api_hook \<times> (('s, 'k, 'b) app_state, api_reply) api_hook) result" where
  "authzInstaller env cfg repo pool lg injected =
     (case New (base_policies env) (policy_fs env) (cedar_parse env) [Contribution (todo_policy env) (world_repo repo)]
             [WithPolicyDir (AuthzPolicyDir cfg)] of
        Inl e \<Rightarrow> Inl (Errorf ''build authorizer: %w'' [] e)
      | Inr A \<Rightarrow>
          (case resolveAuthenticator env cfg pool injected of
             Inl e \<Rightarrow> Inl e
           | Inr authenticator \<Rightarrow>
               (let m = authz_middleware authenticator A cfg lg
                in Inr (set_stack (Install (cedar_Authorize env) m), \<lambda>api. api\<lparr>api_doc := Finalize m (api_doc api)\<rparr>))))"

definition rateLimiterIdleTTL :: duration where
  [go_defs]: "rateLimiterIdleTTL = 10 * Minute"

definition app_limiter :: "('s, 'k, 'b, 'v, 'p) app_env \<Rightarrow> ('s, 'k, 'b) app_world limiter" where
  "app_limiter env key w = on_limiter (in_memory_Allow (rate env) (rate_clock env w) key) w"

text \<open>\<open>NewInMemory\<close> starts a janitor goroutine.\<close>

definition buildRateLimiter :: "('s, 'k, 'b, 'v, 'p) app_env \<Rightarrow> config \<Rightarrow> logger \<Rightarrow> resources
    \<Rightarrow> ('b in_memory option \<times> (('s, 'k, 'b) app_state, api_reply) api_hook option) \<times> resources" where
  "buildRateLimiter env cfg lg res =
     (if \<not> RateLimitEnabled cfg then ((None, None), res)
      else let l = NewInMemory (RateLimitRPS cfg) (RateLimitBurst cfg) rateLimiterIdleTTL
           in ((Some l, Some (set_stack (rl_Install (float_round env) (rl_NewMiddleware (app_limiter env) ClientIPKeyFunc (log_to lg) True)))),
               res\<lparr>janitors := janitors res + 1\<rparr>))"

section \<open>The application\<close>

record 'w http_server =
  srv_Addr :: string
  srv_Handler :: "'w http_handler"
  srv_ReadTimeout :: duration
  srv_ReadHeaderTimeout :: duration
  srv_WriteTimeout :: duration
  srv_IdleTimeout :: duration

record ('s, 'k, 'b) app =
  app_server :: "('s, 'k, 'b) app_state http_server"
  metricsServer :: "('s, 'k, 'b) app_state http_server option"
  app_logger :: logger
  grace :: duration
  app_pool :: "pool_config option"
  rateLimiter :: "'b in_memory option"
  traceShutdown :: "bool option"

definition serviceName :: string where [go_defs]: "serviceName = ''template-go-api''"

definition server_for :: "config \<Rightarrow> string \<Rightarrow> 'w http_handler \<Rightarrow> 'w http_server" where
  "server_for cfg addr h =
     \<lparr>srv_Addr = addr, srv_Handler = h, srv_ReadTimeout = ReadTimeout cfg, srv_ReadHeaderTimeout = ReadHeaderTimeout cfg,
      srv_WriteTimeout = WriteTimeout cfg, srv_IdleTimeout = IdleTimeout cfg\<rparr>"

text \<open>The dependencies \<open>New\<close> hands to the router.\<close>

definition app_router_deps :: "('s, 'k, 'b, 'v, 'p) app_env \<Rightarrow> config \<Rightarrow> logger \<Rightarrow> string \<Rightarrow> ('s, 'k, 'b) app_state service
    \<Rightarrow> ('s, 'k, 'b) app_state readiness_check list \<Rightarrow> (('s, 'k, 'b) app_state, api_reply) api_hook option
    \<Rightarrow> (('s, 'k, 'b) app_state, api_reply) api_hook \<Rightarrow> (('s, 'k, 'b) app_state, api_reply) api_hook
    \<Rightarrow> (('s, 'k, 'b) app_state, api_reply) router_deps" where
  "app_router_deps env cfg lg version svc readiness installRateLimit installAuthz finalizeAuthz =
     \<lparr>rd_Logger = lg, ServeMetricsEndpoint = (MetricsAddr cfg = []), rd_Version = version,
      rd_RequestTimeout = RequestTimeout cfg, rd_CORSAllowedOrigins = CORSAllowedOrigins cfg,
      rd_TrustedProxyHeader = TrustedProxyHeader cfg, Readiness = readiness,
      rd_Register = Some (registerResources env svc), Tracing = TracingEnabled cfg,
      InstallRateLimit = installRateLimit, InstallAuthz = Some installAuthz, FinalizeAuthz = Some finalizeAuthz\<rparr>"

definition App_New :: "('s, 'k, 'b, 'v, 'p) app_env \<Rightarrow> config \<Rightarrow> logger \<Rightarrow> string
    \<Rightarrow> (('s, 'k, 'b) options \<Rightarrow> ('s, 'k, 'b) options) list \<Rightarrow> resources \<Rightarrow> ('s, 'k, 'b) app result \<times> resources" where
  "App_New env cfg lg version opts res =
     (let o1 = fold (\<lambda>opt. opt) opts \<lparr>opt_repo = None, opt_authenticator = None\<rparr> in
      case resolveStore env cfg (opt_repo o1) res of
        (Inl e, res1) \<Rightarrow> (Inl e, res1)
      | (Inr (repo, pool, readiness), res1) \<Rightarrow>
          (let svc = NewService (newID env) (world_repo repo) (Some lg) [] in
           case authzInstaller env cfg repo pool lg (opt_authenticator o1) of
             Inl e \<Rightarrow> (Inl e, res1)
           | Inr (installAuthz, finalizeAuthz) \<Rightarrow>
               (case buildRateLimiter env cfg lg res1 of
                  ((limiter, installRateLimit), res2) \<Rightarrow>
                    (case NewTracerProvider (otel_sdk env)
                            \<lparr>tc_Enabled = TracingEnabled cfg, tc_ServiceName = serviceName, tc_ServiceVersion = version\<rparr> (otel res2) of
                       (Inl e, ot) \<Rightarrow> (Inl (Errorf ''init tracing: %w'' [] e), res2\<lparr>otel := ot\<rparr>)
                     | (Inr shutdown, ot) \<Rightarrow>
                         (let serveMetricsInline = (MetricsAddr cfg = []);
                              h = NewRouter (http env) (app_router_deps env cfg lg version svc readiness installRateLimit installAuthz finalizeAuthz)
                          in (Inr \<lparr>app_server = server_for cfg (Addr cfg) h,
                                   metricsServer =
                                     (if \<not> serveMetricsInline
                                      then Some (server_for cfg (MetricsAddr cfg) (NewMetricsHandler (servemux_other env) (prom_Handler (http env))))
                                      else None),
                                   app_logger = lg, grace = ShutdownGrace cfg, app_pool = pool, rateLimiter = limiter,
                                   traceShutdown = shutdown\<rparr>,
                              res2\<lparr>otel := ot\<rparr>))))))"

definition Handler :: "('s, 'k, 'b) app \<Rightarrow> ('s, 'k, 'b) app_state http_handler" where
  "Handler a = srv_Handler (app_server a)"

section \<open>The OpenAPI export\<close>

definition noopRepository :: "'s repository" where
  "noopRepository = \<lparr>Save = (\<lambda>t s. (None, s)), FindByID = (\<lambda>i s. (Inl ErrNotFound, s)),
                     List = (\<lambda>q s. (Inr \<lparr>Todos = [], Next = None\<rparr>, s))\<rparr>"

definition OpenAPIYAML :: "('s, 'k, 'b, 'v, 'p) app_env \<Rightarrow> string \<Rightarrow> string result" where
  "OpenAPIYAML env version =
     (case SpecYAML (DowngradeYAML env) version (Some (registerResources env (NewService (newID env) noopRepository None [])))
             (Some (\<lambda>api. api\<lparr>api_doc := DocumentSecurity (api_doc api)\<rparr>)) of
        Inl e \<Rightarrow> Inl (Errorf ''build openapi spec: %w'' [] e)
      | Inr spec \<Rightarrow> Inr spec)"

section \<open>Lemmas\<close>

subsection \<open>Gates\<close>

text \<open>A middleware that either answers itself or passes the request on with its context unchanged.\<close>

definition gate :: "('w, 'r) middleware \<Rightarrow> bool" where
  "gate m \<longleftrightarrow> (\<forall>ctx w. (\<exists>w'. \<forall>nxt. m ctx nxt w = nxt ctx w') \<or> (\<exists>r w'. \<forall>nxt. m ctx nxt w = (r, w')))"

lemma gate_limit: "gate (limit fl m)"
proof -
  have "(\<exists>w'. \<forall>nxt. limit fl m ctx nxt w = nxt ctx w') \<or> (\<exists>r w'. \<forall>nxt. limit fl m ctx nxt w = (r, w'))" for ctx w
  proof (cases "rl_key m ctx")
    case (Inr key)
    obtain d w1 where d: "rl_limiter m key w = (d, w1)" by fastforce
    show ?thesis
    proof (cases d)
      case (Inr dec)
      with \<open>rl_key m ctx = Inr key\<close> d show ?thesis by (cases "Allowed dec") (auto simp: limit_def)
    qed (use Inr d in \<open>auto simp: limit_def\<close>)
  qed (auto simp: limit_def)
  then show ?thesis unfolding gate_def by blast
qed

lemma gate_namer: "gate (TraceSpanNamer sp)"
proof -
  have "(\<exists>w'. \<forall>nxt. TraceSpanNamer sp ctx nxt w = nxt ctx w') \<or> (\<exists>r w'. \<forall>nxt. TraceSpanNamer sp ctx nxt w = (r, w'))" for ctx w
    by (cases "span_IsRecording sp ctx w"; cases "hctx_Operation ctx") (auto simp: TraceSpanNamer_def)
  then show ?thesis unfolding gate_def by blast
qed

lemma reaches_gates:
  fixes ms :: "('w, 'r) middleware list"
  assumes "\<forall>m \<in> set gs. gate m" and "reaches (run_chain (gs @ ms)) ctx w c' w'"
  shows "\<exists>w0. reaches (run_chain ms) ctx w0 c' w'"
  using assms
proof (induction gs arbitrary: w)
  case (Cons g gs)
  from Cons.prems(1) have "gate g" by simp
  then consider (pass) v where "\<And>nxt. g ctx nxt w = nxt ctx v" | (stop) r v where "\<And>nxt. g ctx nxt w = (r, v)"
    unfolding gate_def by blast
  then show ?case
  proof cases
    case pass
    with Cons.prems(2) have "reaches (run_chain (gs @ ms)) ctx v c' w'" by (simp add: reaches_def)
    with Cons.IH Cons.prems(1) show ?thesis by simp
  next
    case stop
    let ?h = "\<lambda>c v. (Panicked, v) :: 'r reply \<times> 'w" and ?h' = "\<lambda>c v. (Problem 0 [] [], v) :: 'r reply \<times> 'w"
    from Cons.prems(2) stop have eq: "h c' w' = (r, v)" for h :: "('w, 'r) handler"
      unfolding reaches_def run_chain.simps append_Cons by metis
    from eq [of ?h] eq [of ?h'] show ?thesis by simp
  qed
qed auto

text \<open>Past authorization: the request authenticated and its declaration was satisfied.\<close>

lemma reaches_authorized:
  fixes chain :: "('w, 'r) handler \<Rightarrow> ('w, 'r) handler"
  assumes "mw_enabled m" and "hctx_Operation ctx = Some oper"
    and "declarationFrom (Some oper) = Some decl" and "decl_kind decl = KindRequire"
    and "chain = run_chain (Install cedar m [])" and "reaches chain ctx w c' w'"
  shows "\<exists>p w1. mw_authenticator m ctx w = (Inr p, w1) \<and> PrincipalFrom (hctx_Context c') = Some p
    \<and> permitted cedar (mw_authorizer m) p (cedar_request_for ctx p decl) w1"
proof -
  obtain auth w1 where a: "mw_authenticator m ctx w = (auth, w1)" by fastforce
  note run = assms(5) chain_answer [OF assms(1,2) a, of cedar]
  show ?thesis
  proof (cases auth)
    case (Inl e)
    have "\<not> reaches chain ctx w c' w'" by (rule answered_not_reaches) (simp add: run Inl)
    with assms(6) show ?thesis by simp
  next
    case (Inr p)
    let ?req = "cedar_request_for ctx p decl" and ?a = "mw_authorizer m"
    have req: "decl_kind decl \<noteq> KindPublic" using assms(4) by simp
    show ?thesis
    proof (cases "permitted cedar ?a p ?req w1 \<and> \<not> load_failed cedar ?a p ?req w1")
      case True
      then have "chain h ctx w
          = h (ctx\<lparr>hctx_Context := WithPrincipal (hctx_Context ctx) p\<rparr>) (world_after cedar ?a p ?req w1)" for h
        unfolding run using Inr assms(3) req by (simp add: Let_def)
      from reaches_next [of chain, OF this] assms(6)
      have "c' = ctx\<lparr>hctx_Context := WithPrincipal (hctx_Context ctx) p\<rparr>" by blast
      with True Inr a show ?thesis by (simp add: WithPrincipal_def PrincipalFrom_def)
    next
      case False
      then have "\<exists>s d v. \<forall>h. chain h ctx w = (Problem s d [], v)"
        unfolding run using Inr assms(3) req
        by (cases "load_failed cedar ?a p ?req w1"; cases "IsAnonymous p") (auto simp: Let_def deny_def writeErr_def)
      then obtain s d v where "\<And>h. chain h ctx w = (Problem s d [], v)" by blast
      then have "\<not> reaches chain ctx w c' w'" by (rule answered_not_reaches)
      with assms(6) show ?thesis by simp
    qed
  qed
qed

subsection \<open>The assembled API\<close>

definition mounted :: "string \<Rightarrow> ('w world, 'r) middleware list \<Rightarrow> operation \<times> ('w world, 'r) handler \<Rightarrow> ('w, 'r) huma_route" where
  "mounted prefix st oh = \<lparr>hr_op = (fst oh)\<lparr>op_Path := prefix @ op_Path (fst oh)\<rparr>, hr_stack = st, hr_handler = snd oh\<rparr>"

lemma register_all_api:
  "api_routes (register_all prefix ops api) = api_routes api @ map (mounted prefix (api_stack api)) ops"
  "api_doc (register_all prefix ops api) =
     \<lparr>doc_paths = doc_paths (api_doc api) @ map (\<lambda>oh. [Some ((fst oh)\<lparr>op_Path := prefix @ op_Path (fst oh)\<rparr>)]) ops,
      doc_schemes = doc_schemes (api_doc api)\<rparr>"
  by (induction prefix ops api rule: register_all.induct) (auto simp: huma_Register_def mounted_def Let_def)

text \<open>The hooks the composition root builds, in the order \<open>NewRouter\<close> applies them.\<close>

definition limit_stack :: "('s, 'k, 'b, 'v, 'p) app_env \<Rightarrow> config \<Rightarrow> logger \<Rightarrow> (('s, 'k, 'b) app_world, api_reply) middleware list" where
  "limit_stack env cfg lg =
     (if RateLimitEnabled cfg then [limit (float_round env) (rl_NewMiddleware (app_limiter env) ClientIPKeyFunc (log_to lg) True)] else [])"

definition namer_stack :: "('s, 'k, 'b, 'v, 'p) app_env \<Rightarrow> config \<Rightarrow> (('s, 'k, 'b) app_world, api_reply) middleware list" where
  "namer_stack env cfg = (if TracingEnabled cfg then [TraceSpanNamer (spans (http env))] else [])"

lemma app_api:
  assumes "deps = app_router_deps env cfg lg version svc readiness (snd (fst (buildRateLimiter env cfg lg res)))
             (set_stack (Install (cedar_Authorize env) m)) (\<lambda>api. api\<lparr>api_doc := Finalize m (api_doc api)\<rparr>)"
  shows "api_routes (build_api (http env) deps) =
      map (mounted apiVersionV1 (Install (cedar_Authorize env) m (namer_stack env cfg @ limit_stack env cfg lg)))
        (map (\<lambda>(oper, h). (oper, h oper)) (zip Register (todo_handlers env svc)))"
    and "api_doc (build_api (http env) deps) =
      Finalize m \<lparr>doc_paths = map (\<lambda>oper. [Some (oper\<lparr>op_Path := apiVersionV1 @ op_Path oper\<rparr>)]) Register, doc_schemes = None\<rparr>"
proof -
  show "api_routes (build_api (http env) deps) =
      map (mounted apiVersionV1 (Install (cedar_Authorize env) m (namer_stack env cfg @ limit_stack env cfg lg)))
        (map (\<lambda>(oper, h). (oper, h oper)) (zip Register (todo_handlers env svc)))"
    unfolding assms
    by (simp add: build_api_def app_router_deps_def apply_hook_def set_stack_def buildRateLimiter_def rl_Install_def rl_NewMiddleware_def
        NewAPI_def registerResources_def register_all_api namer_stack_def limit_stack_def Let_def)
  have "map (\<lambda>oh. [Some ((fst oh)\<lparr>op_Path := apiVersionV1 @ op_Path (fst oh)\<rparr>)]) (map2 (\<lambda>oper h. (oper, h oper)) Register (todo_handlers env svc))
      = map (\<lambda>oper. [Some (oper\<lparr>op_Path := apiVersionV1 @ op_Path oper\<rparr>)]) Register"
    by (simp add: Register_def todo_handlers_def)
  then show "api_doc (build_api (http env) deps) =
      Finalize m \<lparr>doc_paths = map (\<lambda>oper. [Some (oper\<lparr>op_Path := apiVersionV1 @ op_Path oper\<rparr>)]) Register, doc_schemes = None\<rparr>"
    unfolding assms
    by (simp add: build_api_def app_router_deps_def apply_hook_def set_stack_def buildRateLimiter_def
        NewAPI_def registerResources_def register_all_api Let_def)
qed

text \<open>The route at each position, with its declaration and the middleware in front of its handler.\<close>

lemma mounted_at:
  assumes "deps = app_router_deps env cfg lg version svc readiness (snd (fst (buildRateLimiter env cfg lg res)))
             (set_stack (Install (cedar_Authorize env) m)) (\<lambda>api. api\<lparr>api_doc := Finalize m (api_doc api)\<rparr>)"
    and "i < 4" and "mw_enabled m" and "hr = api_routes (build_api (http env) deps) ! i"
  shows "\<exists>action ps. Metadata (hr_op hr) = Some (Require action ps) \<and> uid_Type action = ''Action'' \<and> action \<in> set actions
    \<and> hr_op hr = (Register ! i)\<lparr>op_Path := apiVersionV1 @ op_Path (Register ! i)\<rparr> \<and> hr_handler hr = (todo_handlers env svc ! i) (Register ! i)
    \<and> hr_stack hr = (namer_stack env cfg @ limit_stack env cfg lg) @ Install (cedar_Authorize env) m []"
proof -
  have len: "length Register = 4" "length (todo_handlers env svc) = 4" by (simp_all add: Register_def todo_handlers_def)
  have hr: "hr = mounted apiVersionV1 (Install (cedar_Authorize env) m (namer_stack env cfg @ limit_stack env cfg lg))
      (Register ! i, (todo_handlers env svc ! i) (Register ! i))"
    unfolding assms(4) app_api(1) [OF assms(1)] using assms(2) by (simp add: len)
  have "\<forall>oper \<in> set Register. \<exists>action \<in> set actions. \<exists>ps. Metadata oper = Some (Require action ps)"
    unfolding Register_def by (auto simp: actions_def)
  moreover have "Register ! i \<in> set Register" using assms(2) len by simp
  moreover have "\<forall>action \<in> set actions. uid_Type action = ''Action''" by (simp add: actions_def go_defs)
  ultimately have "\<exists>action ps. Metadata (Register ! i) = Some (Require action ps) \<and> uid_Type action = ''Action'' \<and> action \<in> set actions"
    by blast
  with assms(3) show ?thesis unfolding hr by (auto simp: mounted_def Install_def)
qed

lemma New_default_dir: "New base fs parse cs [WithPolicyDir []] = New base fs parse cs []"
  by (simp add: New_def WithPolicyDir_def)

text \<open>
  What a mounted operation that requires one of the todo actions answers under the shipped policies, to a
  request past the rate limiter.
\<close>

definition api_answer :: "logger \<Rightarrow> operation \<Rightarrow> entity_uid \<Rightarrow> (('s, key_db, 'b) app_world, 'r) handler \<Rightarrow> (('s, key_db, 'b) app_world, 'r) handler" where
  "api_answer lg oper action h ctx w =
     (let denied = (\<lambda>p. log_to lg LevelInfo ''authorization denied''
            [(''operation'', LString (OperationID oper)), (''principal'', LUID (UID p)), (''action'', LUID action), (''reasons'', LReasons [])]);
          rejected = log_to lg LevelWarn ''authentication failed'' [(''error'', LError ErrInvalidKey)]
      in case (credentialFrom ctx, map_of (table_api_keys (as_keys (w_app w))) (hashKey (credentialFrom ctx))) of
           ([], _) \<Rightarrow> (Problem 401 genericUnauthorized [], denied Anonymous w)
         | (_, None) \<Rightarrow> (Problem 401 genericUnauthorized [], rejected w)
         | (_, Some (subject, roles)) \<Rightarrow>
             (let p = toPrincipal \<lparr>Subject = subject, Roles = roles\<rparr> in
              if ''admin'' \<in> set roles \<or> ''user'' \<in> set roles
              then h (ctx\<lparr>hctx_Context := WithPrincipal (hctx_Context ctx) p\<rparr>) w
              else (Problem 403 genericForbidden [], denied p w)))"

lemma mounted_answer:
  fixes env :: "('s, key_db, 'b, 'v, scope_policy) app_env"
  assumes deps: "deps = app_router_deps env cfg lg version svc readiness (snd (fst (buildRateLimiter env cfg lg res)))
             (set_stack (Install (cedar_Authorize env) m)) (\<lambda>api. api\<lparr>api_doc := Finalize m (api_doc api)\<rparr>)"
    and "i < 4" and en: "mw_enabled m" "mw_logger m = log_to lg" "mw_authenticator m = (\<lambda>ctx. on_keys (Authenticate Lookup ctx))"
    and cedar: "scope_semantics (cedar_Authorize env)" "snd ` set (policies (mw_authorizer m)) = set base_cedar \<union> set policy_cedar"
      "contributions (mw_authorizer m) = [principalContribution, Contribution policy repo]"
    and op: "Metadata (Register ! i) = Some (Require action ps)" "uid_Type action = ''Action''" "action \<in> set actions"
  shows "\<forall>ctx w w1. hctx_Operation ctx = Some (hr_op (api_routes (build_api (http env) deps) ! i))
      \<and> (\<forall>h. run_chain (namer_stack env cfg @ limit_stack env cfg lg) h ctx w = h ctx w1)
      \<and> key_faults (as_keys (w_app w1)) = [] \<longrightarrow>
    run_chain (hr_stack (api_routes (build_api (http env) deps) ! i)) (hr_handler (api_routes (build_api (http env) deps) ! i)) ctx w =
      api_answer lg (Register ! i) action ((todo_handlers env svc ! i) (Register ! i)) ctx w1"
proof (intro allI impI, elim conjE)
  let ?hr = "api_routes (build_api (http env) deps) ! i" and ?front = "namer_stack env cfg @ limit_stack env cfg lg"
  let ?h = "(todo_handlers env svc ! i) (Register ! i)"
  fix ctx w w1
  assume ctx: "hctx_Operation ctx = Some (hr_op ?hr)" and front: "\<forall>h. run_chain ?front h ctx w = h ctx w1"
    and healthy: "key_faults (as_keys (w_app w1)) = []"
  have hr: "hr_op ?hr = (Register ! i)\<lparr>op_Path := apiVersionV1 @ op_Path (Register ! i)\<rparr>" "hr_handler ?hr = ?h"
      "hr_stack ?hr = ?front @ Install (cedar_Authorize env) m []"
    using mounted_at [OF deps assms(2) en(1) refl] by blast+
  have action: "Metadata (hr_op ?hr) = Some (Require action ps)" "(action \<in> {ActionCreate, ActionRead, ActionUpdate, ActionList}) = True"
    using op(1,3) by (simp_all add: hr(1) actions_def)
  have "mw_authenticator m ctx w1 = (fst (Authenticate Lookup ctx (as_keys (w_app w1))), w1)"
    using Authenticate_healthy [OF healthy, of ctx] by (simp add: en(3) on_keys_def)
  note run = shipped_matrix [OF cedar en(1) ctx action(1) op(2) this healthy, of ?h, unfolded action(2) simp_thms]
  have lines: "log_denied m ctx p action [] = log_to lg LevelInfo ''authorization denied''
      [(''operation'', LString (OperationID (Register ! i))), (''principal'', LUID (UID p)), (''action'', LUID action), (''reasons'', LReasons [])]"
    "log_rejected m e = log_to lg LevelWarn ''authentication failed'' [(''error'', LError e)]" for p e
    using ctx hr(1) by (simp_all add: log_denied_def log_rejected_def operation_id_def en(2))
  have "run_chain (hr_stack ?hr) (hr_handler ?hr) ctx w = run_chain (Install (cedar_Authorize env) m []) ?h ctx w1"
    using front unfolding hr(2,3) run_chain_append by blast
  then show "run_chain (hr_stack ?hr) (hr_handler ?hr) ctx w = api_answer lg (Register ! i) action ?h ctx w1"
    unfolding run lines api_answer_def by (simp only: Let_def)
qed

text \<open>What a successful \<open>New\<close> went through.\<close>

lemma App_New_wiring:
  assumes "App_New env cfg lg version opts res = (Inr a, res')"
  obtains repo svc pool readiness res1 A authenticator deps m ot where
    "resolveStore env cfg (opt_repo (fold (\<lambda>opt. opt) opts \<lparr>opt_repo = None, opt_authenticator = None\<rparr>)) res = (Inr (repo, pool, readiness), res1)"
    "New (base_policies env) (policy_fs env) (cedar_parse env) [Contribution (todo_policy env) (world_repo repo)] [WithPolicyDir (AuthzPolicyDir cfg)] = Inr A"
    "resolveAuthenticator env cfg pool (opt_authenticator (fold (\<lambda>opt. opt) opts \<lparr>opt_repo = None, opt_authenticator = None\<rparr>)) = Inr authenticator"
    "m = authz_middleware authenticator A cfg lg"
    "deps = app_router_deps env cfg lg version svc readiness (snd (fst (buildRateLimiter env cfg lg res1)))
             (set_stack (Install (cedar_Authorize env) m)) (\<lambda>api. api\<lparr>api_doc := Finalize m (api_doc api)\<rparr>)"
    "svc = NewService (newID env) (world_repo repo) (Some lg) []"
    "Handler a = NewRouter (http env) deps"
    "app_pool a = pool" "rateLimiter a = fst (fst (buildRateLimiter env cfg lg res1))"
    "NewTracerProvider (otel_sdk env) \<lparr>tc_Enabled = TracingEnabled cfg, tc_ServiceName = serviceName, tc_ServiceVersion = version\<rparr>
       (otel (snd (buildRateLimiter env cfg lg res1))) = (Inr (traceShutdown a), ot)"
    "res' = (snd (buildRateLimiter env cfg lg res1))\<lparr>otel := ot\<rparr>"
    "srv_WriteTimeout (app_server a) = WriteTimeout cfg" "grace a = ShutdownGrace cfg"
    "metricsServer a = None \<longleftrightarrow> MetricsAddr cfg = []" "rd_RequestTimeout deps = RequestTimeout cfg"
proof -
  define o1 where "o1 = fold (\<lambda>opt. opt) opts \<lparr>opt_repo = None :: 'a repository option, opt_authenticator = None :: ('a, 'b, 'c) app_world authenticate_fn option\<rparr>"
  obtain rs res1 where R: "resolveStore env cfg (opt_repo o1) res = (rs, res1)" by fastforce
  have "rs \<noteq> Inl e" for e using assms R by (auto simp: App_New_def Let_def o1_def)
  then obtain repo pool readiness where rs: "rs = Inr (repo, pool, readiness)" by (metis obj_sumE prod_cases3)
  obtain ai where AI: "authzInstaller env cfg repo pool lg (opt_authenticator o1) = ai" by blast
  have "ai \<noteq> Inl e" for e using assms R rs AI by (auto simp: App_New_def Let_def o1_def)
  then obtain ia fa where ai: "ai = Inr (ia, fa)" by (metis obj_sumE surj_pair)
  obtain li hook res2 where B: "buildRateLimiter env cfg lg res1 = ((li, hook), res2)" by (metis surj_pair)
  obtain tr ot where T: "NewTracerProvider (otel_sdk env) \<lparr>tc_Enabled = TracingEnabled cfg, tc_ServiceName = serviceName, tc_ServiceVersion = version\<rparr> (otel res2) = (tr, ot)"
    by fastforce
  have "tr \<noteq> Inl e" for e using assms R rs AI ai B T by (auto simp: App_New_def Let_def o1_def)
  then obtain sh where tr: "tr = Inr sh" by (metis obj_sumE)
  from AI ai obtain A authenticator where
    N: "New (base_policies env) (policy_fs env) (cedar_parse env) [Contribution (todo_policy env) (world_repo repo)] [WithPolicyDir (AuthzPolicyDir cfg)] = Inr A"
    and au: "resolveAuthenticator env cfg pool (opt_authenticator o1) = Inr authenticator"
    and hooks: "ia = set_stack (Install (cedar_Authorize env) (authz_middleware authenticator A cfg lg))"
      "fa = (\<lambda>api. api\<lparr>api_doc := Finalize (authz_middleware authenticator A cfg lg) (api_doc api)\<rparr>)"
    by (auto simp: authzInstaller_def Let_def split: sum.splits)
  show ?thesis
  proof (rule that [OF _ N _ refl refl])
    show "resolveStore env cfg (opt_repo (fold (\<lambda>opt. opt) opts \<lparr>opt_repo = None, opt_authenticator = None\<rparr>)) res = (Inr (repo, pool, readiness), res1)"
      using R rs by (simp add: o1_def)
    show "resolveAuthenticator env cfg pool (opt_authenticator (fold (\<lambda>opt. opt) opts \<lparr>opt_repo = None, opt_authenticator = None\<rparr>)) = Inr authenticator"
      using au by (simp add: o1_def)
  qed (use assms R rs AI ai B T tr hooks in \<open>auto simp: App_New_def Let_def o1_def Handler_def server_for_def app_router_deps_def split: if_splits\<close>)
qed

lemma resolveStore_accounts:
  "resolveStore env cfg injected res = (r, res1) \<Longrightarrow>
     res1 = (case r of Inr (_, Some _, _) \<Rightarrow> res\<lparr>pools_open := pools_open res + 1\<rparr> | _ \<Rightarrow> res)"
  by (auto simp: resolveStore_def dest!: Connect_accounts split: option.splits sum.splits prod.splits)

lemma NewTracerProvider_ok: "NewTracerProvider lib cfg s = (Inr sh, s') \<Longrightarrow> (sh \<noteq> None \<longleftrightarrow> tc_Enabled cfg)
    \<and> s' = (if tc_Enabled cfg then \<lparr>ot_exporters = Suc (ot_exporters s), ot_provider = Some (tc_ServiceName cfg, tc_ServiceVersion cfg),
             ot_propagators = [''tracecontext'', ''baggage'']\<rparr> else s)"
  by (auto simp: NewTracerProvider_def Let_def split: option.splits if_splits)

text \<open>An environment for the examples: no store, the development key, a pool that always opens.\<close>

definition sample_env :: "(unit, key_db, int, bool, scope_policy) app_env" where
  "sample_env =
     \<lparr>http = sample_libs, servemux_other = (\<lambda>r rs w. (Returned, WriteHeader 404 rs, w)),
      pgx = \<lparr>pgxpool_ParseConfig = (\<lambda>url. Inr \<lparr>pc_MaxConns = 4, pc_Tracer = False\<rparr>), pgxpool_NewWithConfig = (\<lambda>_. None), pgxpool_Ping = (\<lambda>_. None)\<rparr>,
      pg_store = noopRepository, pg_store_Ping = (\<lambda>s. (None, s)), key_store = Lookup, rate = count_lib, rate_clock = (\<lambda>w. (0, 0, 0, 0)),
      float_round = id, cedar_Authorize = scope_engine, cedar_parse = shipped_parser, base_policies = ''b'', todo_policy = ''p'',
      policy_fs = no_files, otel_sdk = \<lparr>otlptracehttp_New = None, resource_New = (\<lambda>_ _. None)\<rparr>, newID = (\<lambda>_. ''id''),
      json_decoding = (\<lambda>_. None), local_offset = 0,
      decode_create = (\<lambda>_ _. Inr \<lparr>in_Title = ''t''\<rparr>), decode_get = (\<lambda>_ _. Inr \<lparr>in_GetID = ''i''\<rparr>),
      decode_list = (\<lambda>_ _. Inr \<lparr>in_Limit = 20, in_Cursor = []\<rparr>), decode_complete = (\<lambda>_ _. Inr \<lparr>in_CompleteID = ''i''\<rparr>),
      DowngradeYAML = (\<lambda>_. Inr [])\<rparr>"

definition no_resources :: resources where
  "no_resources = \<lparr>pools_open = 0, janitors = 0, otel = \<lparr>ot_exporters = 0, ot_provider = None, ot_propagators = []\<rparr>\<rparr>"

definition sample_logger :: logger where
  "sample_logger = \<lparr>lg_format = JSONHandler, lg_level = 0, lg_scope = None\<rparr>"

definition sample_config :: config where
  "sample_config = defaultConfig\<lparr>DatabaseURL := ''postgres:''\<rparr>"

definition no_policy_config :: config where
  "no_policy_config = sample_config\<lparr>AuthzPolicyDir := ''/etc''\<rparr>"

definition sample_app_world :: "config \<Rightarrow> (unit, key_db, int) app_world" where
  "sample_app_world cfg =
     \<lparr>w_now = 0, w_gone = None, w_log = [], w_metrics = NewMetrics,
      w_app = \<lparr>as_store = (), as_keys = seeded_keys, as_limiter = NewInMemory (RateLimitRPS cfg) (RateLimitBurst cfg) rateLimiterIdleTTL\<rparr>\<rparr>"

lemma sample_front:
  "\<exists>w1. (\<forall>h. run_chain (namer_stack sample_env sample_config @ limit_stack sample_env sample_config sample_logger) h ctx (sample_app_world sample_config) = h ctx w1)
     \<and> as_keys (w_app w1) = seeded_keys"
  by (simp add: namer_stack_def limit_stack_def limit_def rl_NewMiddleware_def ClientIPKeyFunc_def app_limiter_def on_limiter_def
      sample_app_world_def sample_env_def sample_config_def defaultConfig_def in_memory_Allow_def bucket_def NewInMemory_def count_lib_def Let_def go_defs)
     (rule exI, intro conjI allI, rule refl, simp)

lemma sample_list:
  "(todo_handlers sample_env (NewService (newID sample_env) (world_repo (pg_store sample_env)) (Some sample_logger) []) ! 1) oper ctx w =
     (Response (ListOut \<lparr>out_Todos = [], out_NextCursor = []\<rparr>), w)"
  by (simp add: todo_handlers_def operation_handler_def sample_env_def NewService_def svc_List_def Service_List_def world_repo_def on_store_def
      noopRepository_def http_list_def decodeCursor_def encodeCursor_def reply_of_def clampLimit_def)

lemma contribution_valid: "validateTypeOwnership [Contribution policy repo] = None"
  by (simp add: validateTypeOwnership_iff types_ok_def reservedTypes_def Contribution_def go_defs)

lemma sample_New:
  "\<exists>A. New ''b'' no_files shipped_parser [Contribution ''p'' repo] [WithPolicyDir []] = Inr A"
  using contribution_valid [of "''p''" repo]
  by (simp add: New_def loadBasePolicies_def mergePolicies_def shipped_parser_def WithPolicyDir_def split: list.split)

lemma sample_app: "\<exists>a. App_New sample_env sample_config sample_logger ''v1'' [] no_resources
    = (Inr a, no_resources\<lparr>pools_open := 1, janitors := 1\<rparr>) \<and> rateLimiter a \<noteq> None \<and> app_pool a \<noteq> None \<and> metricsServer a \<noteq> None"
proof -
  obtain A where "New ''b'' no_files shipped_parser [Contribution ''p'' (world_repo noopRepository :: (unit, key_db, int) app_world repository)] [WithPolicyDir []] = Inr A"
    using sample_New by blast
  then show ?thesis
    by (simp add: App_New_def resolveStore_def Connect_def authzInstaller_def resolveAuthenticator_def buildRateLimiter_def NewTracerProvider_def
        sample_env_def sample_config_def defaultConfig_def no_resources_def Let_def go_defs)
qed

text \<open>A request reaches the handler of a mounted operation only when its principal was authenticated and permitted.\<close>

lemma mounted_route_guarded:
  fixes env :: "('s, 'k, 'b, 'v, 'p) app_env"
  assumes "deps = app_router_deps env cfg lg version svc readiness (snd (fst (buildRateLimiter env cfg lg res1)))
      (set_stack (Install (cedar_Authorize env) m)) (\<lambda>api. api\<lparr>api_doc := Finalize m (api_doc api)\<rparr>)"
    and en: "mw_enabled m" and hr: "hr \<in> set (api_routes (build_api (http env) deps))"
  shows "\<exists>decl. declarationFrom (Some (hr_op hr)) = Some decl \<and> decl_kind decl = KindRequire \<and> decl_action decl \<in> set actions
         \<and> (\<forall>ctx w ctx' w'. hctx_Operation ctx = Some (hr_op hr) \<and> reaches (run_chain (hr_stack hr)) ctx w ctx' w' \<longrightarrow>
              (\<exists>p w0 w1. mw_authenticator m ctx w0 = (Inr p, w1) \<and> PrincipalFrom (hctx_Context ctx') = Some p
                 \<and> permitted (cedar_Authorize env) (mw_authorizer m) p (cedar_request_for ctx p decl) w1))"
proof -
  note api = app_api [OF assms(1)]
  from hr obtain oper h where op: "oper \<in> set Register" "hr_op hr = oper\<lparr>op_Path := apiVersionV1 @ op_Path oper\<rparr>"
    and st: "hr_stack hr = (namer_stack env cfg @ limit_stack env cfg lg) @ Install (cedar_Authorize env) m []"
    using en unfolding api by (auto simp: mounted_def Install_def dest!: set_zip_leftD)
  from op obtain decl where d: "declarationFrom (Some (hr_op hr)) = Some decl" "decl_kind decl = KindRequire" "decl_action decl \<in> set actions"
    by (auto simp: Register_def declarationFrom_def Require_def actions_def Let_def)
  have gates: "\<forall>g \<in> set (namer_stack env cfg @ limit_stack env cfg lg). gate g"
    by (auto simp: namer_stack_def limit_stack_def gate_namer gate_limit split: if_splits)
  have "\<exists>p w0 w1. mw_authenticator m ctx w0 = (Inr p, w1) \<and> PrincipalFrom (hctx_Context ctx') = Some p
               \<and> permitted (cedar_Authorize env) (mw_authorizer m) p (cedar_request_for ctx p decl) w1"
    if "hctx_Operation ctx = Some (hr_op hr)" "reaches (run_chain (hr_stack hr)) ctx w ctx' w'" for ctx w ctx' w'
    using reaches_gates [OF gates that(2) [unfolded st]] reaches_authorized [OF en that(1) d(1,2) refl] by blast
  with d show ?thesis by blast
qed

text \<open>What \<open>New\<close> opened, on success and on failure.\<close>

lemma New_accounts:
  assumes "App_New env cfg lg version [] res = (r, res')"
  shows "(case r of
     Inr a \<Rightarrow> app_pool a \<noteq> None \<and> pools_open res' = Suc (pools_open res)
       \<and> (rateLimiter a \<noteq> None \<longleftrightarrow> RateLimitEnabled cfg) \<and> janitors res' = janitors res + (if RateLimitEnabled cfg then 1 else 0)
       \<and> (traceShutdown a \<noteq> None \<longleftrightarrow> TracingEnabled cfg)
   | Inl e \<Rightarrow>
       (case Connect (pgx env) \<lparr>pg_URL = DatabaseURL cfg, pg_MaxConns = DBMaxConns cfg, pg_Tracing = TracingEnabled cfg\<rparr> res of
          (Inl _, _) \<Rightarrow> res' = res
        | (Inr pool, _) \<Rightarrow>
            pools_open res' = Suc (pools_open res)
            \<and> janitors res' = janitors res
                + (if RateLimitEnabled cfg \<and> (\<exists>hooks. authzInstaller env cfg (pg_store env) (Some pool) lg None = Inr hooks) then 1 else 0)))"
proof -
  obtain c res1 where c: "Connect (pgx env) \<lparr>pg_URL = DatabaseURL cfg, pg_MaxConns = DBMaxConns cfg, pg_Tracing = TracingEnabled cfg\<rparr> res = (c, res1)"
    by fastforce
  note acc = Connect_accounts [OF c]
  show ?thesis
  proof (cases c)
    case (Inl e)
    with assms c acc show ?thesis by (auto simp: App_New_def resolveStore_def Let_def)
  next
    case (Inr pool)
    obtain tr ot where T: "NewTracerProvider (otel_sdk env)
        \<lparr>tc_Enabled = TracingEnabled cfg, tc_ServiceName = serviceName, tc_ServiceVersion = version\<rparr> (otel (snd (buildRateLimiter env cfg lg res1))) = (tr, ot)"
      by fastforce
    show ?thesis
      using assms c acc Inr T
      by (cases "authzInstaller env cfg (pg_store env) (Some pool) lg None"; cases tr)
         (auto simp: App_New_def resolveStore_def buildRateLimiter_def Let_def dest!: NewTracerProvider_ok split: if_splits)
  qed
qed

section \<open>Properties\<close>

text \<open>
  C22. The assembled server guards its API: when authorization is enabled, every operation \<open>New\<close> mounts
  declares one of the todo actions, and a request reaches its handler only after it passed the installed
  authenticator (the API-key store, unless one is injected) and the policies permitted that principal,
  who is then on the handler's context, also with rate limiting and tracing in front.  The OpenAPI
  document marks every operation as secured.
\<close>

theorem assembled_api_guarded:
  fixes env :: "('s, 'k, 'b, 'v, 'p) app_env"
  assumes "App_New env cfg lg version opts res = (Inr a, res')" and "AuthzEnabled cfg"
  shows "\<exists>deps (m :: (('s, 'k, 'b) app_world, 'p) authz_mw). Handler a = NewRouter (http env) deps
    \<and> (opts = [] \<longrightarrow> mw_authenticator m = (\<lambda>ctx. on_keys (Authenticate (key_store env) ctx)))
    \<and> map (\<lambda>hr. (op_Method (hr_op hr), op_Path (hr_op hr))) (api_routes (build_api (http env) deps)) =
        [(''POST'', ''/v1/todos''), (''GET'', ''/v1/todos''), (''GET'', ''/v1/todos/{id}''), (''POST'', ''/v1/todos/{id}/complete'')]
    \<and> (\<forall>item \<in> set (doc_paths (api_doc (build_api (http env) deps))). \<forall>oper \<in> set (pathOperations item). Security oper = SecurityRequirement)
    \<and> (\<forall>hr \<in> set (api_routes (build_api (http env) deps)).
         \<exists>decl. declarationFrom (Some (hr_op hr)) = Some decl \<and> decl_kind decl = KindRequire \<and> decl_action decl \<in> set actions
         \<and> (\<forall>ctx w ctx' w'. hctx_Operation ctx = Some (hr_op hr) \<and> reaches (run_chain (hr_stack hr)) ctx w ctx' w' \<longrightarrow>
              (\<exists>p w0 w1. mw_authenticator m ctx w0 = (Inr p, w1) \<and> PrincipalFrom (hctx_Context ctx') = Some p
                 \<and> permitted (cedar_Authorize env) (mw_authorizer m) p (cedar_request_for ctx p decl) w1)))"
proof -
  obtain repo svc pool readiness res1 A authenticator deps m ot where
    auth: "resolveAuthenticator env cfg pool (opt_authenticator (fold (\<lambda>opt. opt) opts \<lparr>opt_repo = None, opt_authenticator = None\<rparr>)) = Inr authenticator"
    and m: "m = authz_middleware authenticator A cfg lg"
    and deps: "deps = app_router_deps env cfg lg version svc readiness (snd (fst (buildRateLimiter env cfg lg res1)))
             (set_stack (Install (cedar_Authorize env) m)) (\<lambda>api. api\<lparr>api_doc := Finalize m (api_doc api)\<rparr>)"
    and router: "Handler a = NewRouter (http env) deps"
    by (rule App_New_wiring [OF assms(1)]) blast
  note api = app_api [OF deps]
  have en: "mw_enabled m" using assms(2) by (simp add: m authz_middleware_def NewMiddleware_def)
  have own: "mw_authenticator m = (\<lambda>ctx. on_keys (Authenticate (key_store env) ctx))" if "opts = []"
    using auth that assms(2) by (auto simp: m authz_middleware_def NewMiddleware_def resolveAuthenticator_def split: if_splits)
  have paths: "map (\<lambda>hr. (op_Method (hr_op hr), op_Path (hr_op hr))) (api_routes (build_api (http env) deps)) =
        [(''POST'', ''/v1/todos''), (''GET'', ''/v1/todos''), (''GET'', ''/v1/todos/{id}''), (''POST'', ''/v1/todos/{id}/complete'')]"
    unfolding api by (simp add: Register_def todo_handlers_def mounted_def apiVersionV1_def)
  have doc: "\<forall>item \<in> set (doc_paths (api_doc (build_api (http env) deps))). \<forall>oper \<in> set (pathOperations item). Security oper = SecurityRequirement"
    unfolding api using en
    by (auto simp: Finalize_def DocumentSecurity_def RegisterSecurityScheme_def ApplySecurity_def apply_security_op_def Register_def
        pathOperations_def List.map_filter_def declarationFrom_def Require_def Let_def)
  show ?thesis
    by (rule exI [of _ deps], rule exI [of _ m], intro conjI) (rule router, rule impI, erule own, rule paths, rule doc, rule ballI, erule mounted_route_guarded [OF deps en])
qed

theorem assembled_api_guarded_witness:
  "\<exists>a res' deps. App_New sample_env sample_config sample_logger ''v1'' [] no_resources = (Inr a, res')
     \<and> Handler a = NewRouter (http sample_env) deps \<and> length (api_routes (build_api (http sample_env) deps)) = 4"
proof -
  obtain a res' where a: "App_New sample_env sample_config sample_logger ''v1'' [] no_resources = (Inr a, res')" using sample_app by blast
  have "AuthzEnabled sample_config" by (simp add: sample_config_def defaultConfig_def go_defs)
  note guarded = assembled_api_guarded [OF a this]
  have four: "\<And>xs f. map f xs = [p, q, r, s] \<Longrightarrow> length xs = 4" for p q r s by (drule arg_cong [of _ _ length]) simp
  from guarded a show ?thesis by (elim exE conjE) (intro exI conjI, assumption, assumption, erule four)
qed

text \<open>
  C4. What the assembled server answers on its API (\<open>api_answer\<close>).  Built without options, with
  authorization enabled, the shipped policies and an engine with the scope semantics, a request for a
  mounted operation that passed the rate limiter, while the key store is healthy, gets: 401 without a
  credential or with an unknown key; 403 for a key with neither role; and with a key of the user or the
  admin role exactly what the handler of that operation answers, run by the service over PostgreSQL on
  a context that carries the principal of the key, from the world the rate limiter left.  A refusal
  writes one line to the log and changes nothing else.
\<close>

theorem assembled_api_serves:
  fixes env :: "('s, key_db, 'b, 'v, scope_policy) app_env"
  assumes "App_New env cfg lg version [] res = (Inr a, res')"
    and "AuthzEnabled cfg" and "AuthzPolicyDir cfg = []" and "key_store env = Lookup"
    and "scope_semantics (cedar_Authorize env)" and "todo_policy env \<noteq> []"
    and "cedar_parse env ''base.cedar'' (base_policies env) = Inr base_cedar"
    and "cedar_parse env ''slice0.cedar'' (todo_policy env) = Inr policy_cedar"
    and "i < 4" and "svc = NewService (newID env) (world_repo (pg_store env)) (Some lg) []"
  shows "\<exists>deps action ps. Handler a = NewRouter (http env) deps
    \<and> Metadata (Register ! i) = Some (Require action ps) \<and> action \<in> set actions
    \<and> (let hr = api_routes (build_api (http env) deps) ! i in
       \<forall>ctx w w1. hctx_Operation ctx = Some (hr_op hr)
           \<and> (\<forall>h. run_chain (namer_stack env cfg @ limit_stack env cfg lg) h ctx w = h ctx w1)
           \<and> key_faults (as_keys (w_app w1)) = [] \<longrightarrow>
         run_chain (hr_stack hr) (hr_handler hr) ctx w =
           api_answer lg (Register ! i) action ((todo_handlers env svc ! i) (Register ! i)) ctx w1)"
proof -
  obtain repo svc' pool readiness res1 A authenticator deps m where
    store: "resolveStore env cfg None res = (Inr (repo, pool, readiness), res1)"
    and A: "New (base_policies env) (policy_fs env) (cedar_parse env) [Contribution (todo_policy env) (world_repo repo)] [] = Inr A"
    and auth: "resolveAuthenticator env cfg pool None = Inr authenticator"
    and m: "m = authz_middleware authenticator A cfg lg"
    and deps: "deps = app_router_deps env cfg lg version svc' readiness (snd (fst (buildRateLimiter env cfg lg res1)))
             (set_stack (Install (cedar_Authorize env) m)) (\<lambda>api. api\<lparr>api_doc := Finalize m (api_doc api)\<rparr>)"
    and svc': "svc' = NewService (newID env) (world_repo repo) (Some lg) []"
    and router: "Handler a = NewRouter (http env) deps"
    by (rule App_New_wiring [OF assms(1)]) (auto simp: assms(3) New_default_dir)
  have "repo = pg_store env" using store by (auto simp: resolveStore_def split: sum.splits prod.splits)
  then have svc: "svc' = svc" by (simp add: svc' assms(10))
  have en: "mw_enabled m" "mw_authorizer m = A" "mw_logger m = log_to lg" "mw_authenticator m = (\<lambda>ctx. on_keys (Authenticate Lookup ctx))"
    using auth assms(2,4) by (auto simp: m authz_middleware_def NewMiddleware_def resolveAuthenticator_def split: if_splits)
  from mounted_at [OF deps assms(9) en(1) refl] obtain action ps where
    op: "Metadata (Register ! i) = Some (Require action ps)" "uid_Type action = ''Action''" "action \<in> set actions" by auto
  note run = mounted_answer [OF deps assms(9) en(1,3,4) assms(5) engine_policies [OF A assms(6-8), folded en(2)] op]
  with router op(1,3) show ?thesis unfolding Let_def svc by blast
qed

theorem assembled_api_serves_witness:
  "\<exists>a res' deps w1. App_New sample_env sample_config sample_logger ''v1'' [] no_resources = (Inr a, res')
     \<and> Handler a = NewRouter (http sample_env) deps
     \<and> (let hr = api_routes (build_api (http sample_env) deps) ! 1;
            ctx = (with_headers [(''X-API-Key'', ''dev-user-key'')])\<lparr>hctx_Operation := Some (hr_op hr)\<rparr>
        in run_chain (hr_stack hr) (hr_handler hr) ctx (sample_app_world sample_config) =
             (Response (ListOut \<lparr>out_Todos = [], out_NextCursor = []\<rparr>), w1))"
proof -
  let ?w = "sample_app_world sample_config" and ?svc = "NewService (newID sample_env) (world_repo (pg_store sample_env)) (Some sample_logger) []"
  obtain a res' where a: "App_New sample_env sample_config sample_logger ''v1'' [] no_resources = (Inr a, res')" using sample_app by blast
  have conf: "AuthzEnabled sample_config" "AuthzPolicyDir sample_config = []" by (simp_all add: sample_config_def defaultConfig_def go_defs)
  have env: "key_store sample_env = Lookup" "scope_semantics (cedar_Authorize sample_env)" "todo_policy sample_env \<noteq> []"
    "cedar_parse sample_env ''base.cedar'' (base_policies sample_env) = Inr base_cedar"
    "cedar_parse sample_env ''slice0.cedar'' (todo_policy sample_env) = Inr policy_cedar"
    by (simp_all add: sample_env_def scope_engine_semantics shipped_parser_def)
  let ?hr = "\<lambda>deps. api_routes (build_api (http sample_env) deps) ! 1"
  let ?ctx = "\<lambda>deps. (with_headers [(''X-API-Key'', ''dev-user-key'')])\<lparr>hctx_Operation := Some (hr_op (?hr deps))\<rparr>"
  have "trimmed ''dev-user-key''" by code_simp
  then have c: "credentialFrom (?ctx deps) = ''dev-user-key''"
    "map_of (table_api_keys seeded_keys) (hashKey ''dev-user-key'') = Some (''dev-user'', [''user''])" "key_faults seeded_keys = []" for deps
    by (simp_all add: credentialFrom_def with_headers_def hctx_Header_def APIKeyHeader_def TrimSpace_trimmed
        CutPrefix_def starts_with_def bearerPrefix_def seeded_keys_def)
  have one: "(1 :: nat) < 4" by simp
  show ?thesis
    using assembled_api_serves [OF a conf env one refl, unfolded Let_def api_answer_def]
    apply (elim exE conjE)
    subgoal premises prems for deps action ps
    proof -
      obtain w1 where front: "\<forall>h. run_chain (namer_stack sample_env sample_config @ limit_stack sample_env sample_config sample_logger) h (?ctx deps) ?w = h (?ctx deps) w1"
        and keys: "as_keys (w_app w1) = seeded_keys"
        using sample_front [of "?ctx deps"] by blast
      from prems(4) [THEN spec, THEN spec, THEN spec, THEN mp, OF conjI, OF _ conjI, OF _ front, unfolded keys c]
      have "run_chain (hr_stack (?hr deps)) (hr_handler (?hr deps)) (?ctx deps) ?w = (Response (ListOut \<lparr>out_Todos = [], out_NextCursor = []\<rparr>), w1)"
        by (simp add: sample_list del: One_nat_def)
      with a prems(1) show ?thesis unfolding Let_def by blast
    qed
    done
qed

text \<open>
  C32. What \<open>New\<close> leaves open.  On success the process holds exactly what the application shuts down
  later: a pool if and only if none was injected, a janitor if and only if rate limiting is enabled, a
  tracer if and only if tracing is.  A failure to connect leaves nothing open; but when building the
  authorization engine fails the pool stays open, and when tracing cannot be set up the pool and the
  janitor do, with no handle returned to close them.
\<close>

theorem New_resources:
  assumes "App_New env cfg lg version [] res = (r, res')"
  shows "(case r of
     Inr a \<Rightarrow> app_pool a \<noteq> None \<and> pools_open res' = Suc (pools_open res)
       \<and> (rateLimiter a \<noteq> None \<longleftrightarrow> RateLimitEnabled cfg) \<and> janitors res' = janitors res + (if RateLimitEnabled cfg then 1 else 0)
       \<and> (traceShutdown a \<noteq> None \<longleftrightarrow> TracingEnabled cfg)
   | Inl e \<Rightarrow>
       (case Connect (pgx env) \<lparr>pg_URL = DatabaseURL cfg, pg_MaxConns = DBMaxConns cfg, pg_Tracing = TracingEnabled cfg\<rparr> res of
          (Inl _, _) \<Rightarrow> res' = res
        | (Inr pool, _) \<Rightarrow>
            pools_open res' = Suc (pools_open res)
            \<and> janitors res' = janitors res
                + (if RateLimitEnabled cfg \<and> (\<exists>hooks. authzInstaller env cfg (pg_store env) (Some pool) lg None = Inr hooks) then 1 else 0)))"
  by (rule New_accounts [OF assms])

theorem New_resources_witness:
  "\<exists>e res'. App_New sample_env no_policy_config sample_logger ''v1'' [] no_resources = (Inl e, res')
     \<and> pools_open res' = 1 \<and> janitors res' = 0"
proof -
  let ?pool = "\<lparr>pc_MaxConns = 4, pc_Tracer = False\<rparr>"
  note conf = no_policy_config_def sample_config_def defaultConfig_def
  have conn: "Connect (pgx sample_env) \<lparr>pg_URL = DatabaseURL no_policy_config, pg_MaxConns = DBMaxConns no_policy_config,
       pg_Tracing = TracingEnabled no_policy_config\<rparr> no_resources = (Inr ?pool, no_resources\<lparr>pools_open := 1\<rparr>)"
    by (simp add: Connect_def sample_env_def no_resources_def conf go_defs)
  obtain e where bad: "authzInstaller sample_env no_policy_config (pg_store sample_env) (Some ?pool) sample_logger None = Inl e"
    by (simp add: authzInstaller_def New_def contribution_valid loadBasePolicies_def WithPolicyDir_def sample_env_def no_files_def conf)
  have new: "App_New sample_env no_policy_config sample_logger ''v1'' [] no_resources = (Inl e, no_resources\<lparr>pools_open := 1\<rparr>)"
    by (simp add: App_New_def resolveStore_def conn bad Let_def)
  from New_resources [OF new] conn bad have "janitors (no_resources\<lparr>pools_open := 1\<rparr>) = 0" by (simp add: no_resources_def)
  with new show ?thesis by simp
qed

end
