(* ===== verification/Lifecycle.thy ===== *)
theory Lifecycle
  imports App
begin

text \<open>
  Running and stopping the application: \<open>internal/app/serve.go\<close> as a step relation.

  The state holds what the goroutines of \<open>Run\<close> share: for every server whether its goroutine is in
  \<open>ListenAndServe\<close>, whether \<open>Shutdown\<close> was called on it and how many requests it is serving, the buffered
  channel \<open>serveErr\<close>, the cancellation of the context, the expiry of the grace period, and the program
  counter of \<open>Run\<close> itself.  A step is one of \<open>Run\<close> (\<open>Main\<close>) or one of its surroundings (\<open>Env\<close>): a
  server that fails or returns, a request that comes or completes, a signal, the grace timer.
\<close>

section \<open>Servers\<close>

record 'w named_server =
  ns_server :: "'w http_server"
  ns_name :: string

definition servers :: "('s, 'k, 'b) app \<Rightarrow> ('s, 'k, 'b) app_state named_server list" where
  "servers a =
     (let svs = [\<lparr>ns_server = app_server a, ns_name = ''http server''\<rparr>] in
      case metricsServer a of
        None \<Rightarrow> svs
      | Some m \<Rightarrow> svs @ [\<lparr>ns_server = m, ns_name = ''metrics server''\<rparr>])"

definition ErrServerClosed :: go_error where
  [go_defs]: "ErrServerClosed = Sentinel ''http.ErrServerClosed'' ''http: Server closed''"

section \<open>The state of Run\<close>

datatype run_defer = ShutdownTracing | StopRateLimiter | ClosePool

text \<open>\<open>Shutting i waiting errs\<close>: the loop of \<open>shutdown\<close> is at server \<open>i\<close>, before its call or inside it.\<close>

datatype run_phase =
    Selecting
  | Shutting nat bool "go_error list"
  | Deferring "run_defer list" "go_error option"
  | Exited "go_error option"

record 'b run_state =
  serving :: "bool list"
  closed :: "bool list"
  in_service :: "nat list"
  serveErr :: "go_error option list"
  ctx_done :: bool
  grace_expired :: bool
  phase :: run_phase
  pool_open :: bool
  run_limiter :: "'b in_memory option"
  tracer_on :: bool

text \<open>\<open>Run\<close> defers \<open>closePool\<close>, \<open>stopRateLimiter\<close> and \<open>shutdownTracing\<close>; they run in reverse order.\<close>

definition run_defers :: "run_defer list" where
  "run_defers = rev [ClosePool, StopRateLimiter, ShutdownTracing]"

definition run_init :: "('s, 'k, 'b) app \<Rightarrow> 'b run_state" where
  "run_init a =
     (let n = length (servers a)
      in \<lparr>serving = replicate n True, closed = replicate n False, in_service = replicate n 0, serveErr = [],
          ctx_done = False, grace_expired = False, phase = Selecting,
          pool_open = (app_pool a \<noteq> None), run_limiter = rateLimiter a, tracer_on = (traceShutdown a \<noteq> None)\<rparr>)"

definition closePool :: "('s, 'k, 'b) app \<Rightarrow> 'b run_state \<Rightarrow> 'b run_state" where
  "closePool a s = (if app_pool a = None then s else s\<lparr>pool_open := False\<rparr>)"

definition stopRateLimiter :: "('s, 'k, 'b) app \<Rightarrow> 'b run_state \<Rightarrow> 'b run_state" where
  "stopRateLimiter a s = (if rateLimiter a = None then s else s\<lparr>run_limiter := map_option Stop (run_limiter s)\<rparr>)"

text \<open>An error of the flush is logged only.\<close>

definition shutdownTracing :: "('s, 'k, 'b) app \<Rightarrow> 'b run_state \<Rightarrow> 'b run_state" where
  "shutdownTracing a s = (if traceShutdown a = None then s else s\<lparr>tracer_on := False\<rparr>)"

fun run_deferred :: "('s, 'k, 'b) app \<Rightarrow> run_defer \<Rightarrow> 'b run_state \<Rightarrow> 'b run_state" where
  "run_deferred a ClosePool s = closePool a s"
| "run_deferred a StopRateLimiter s = stopRateLimiter a s"
| "run_deferred a ShutdownTracing s = shutdownTracing a s"

definition errors_Join :: "go_error list \<Rightarrow> go_error option" where
  "errors_Join errs = (if errs = [] then None else Some (Joined errs))"

definition server_error :: "('s, 'k, 'b) app \<Rightarrow> nat \<Rightarrow> go_error \<Rightarrow> go_error" where
  "server_error a i e = Errorf ''%s: %w'' [ns_name (servers a ! i)] e"

section \<open>Steps\<close>

text \<open>
  A request can come until \<open>Shutdown\<close> is called, on a connection that is still open even if the listener
  has failed.  \<open>Shutdown\<close> closes the listener, then waits until no request is in service or the grace
  period is over; closing the listener may give an error of its own (\<open>lnerr\<close>).
\<close>

datatype actor = Main | Env

inductive run_step :: "('s, 'k, 'b) app \<Rightarrow> actor \<Rightarrow> 'b run_state \<Rightarrow> 'b run_state \<Rightarrow> bool" for a where
  listen_fails: "i < length (servers a) \<Longrightarrow> serving s ! i \<Longrightarrow> \<not> errors_Is e ErrServerClosed \<Longrightarrow>
    run_step a Env s (s\<lparr>serving := (serving s)[i := False], serveErr := serveErr s @ [Some (server_error a i e)]\<rparr>)"
| listen_closed: "i < length (servers a) \<Longrightarrow> serving s ! i \<Longrightarrow> closed s ! i \<Longrightarrow>
    run_step a Env s (s\<lparr>serving := (serving s)[i := False], serveErr := serveErr s @ [None]\<rparr>)"
| request_comes: "i < length (servers a) \<Longrightarrow> \<not> closed s ! i \<Longrightarrow>
    run_step a Env s (s\<lparr>in_service := (in_service s)[i := Suc (in_service s ! i)]\<rparr>)"
| request_completes: "i < length (servers a) \<Longrightarrow> in_service s ! i > 0 \<Longrightarrow>
    run_step a Env s (s\<lparr>in_service := (in_service s)[i := in_service s ! i - 1]\<rparr>)"
| signal: "run_step a Env s (s\<lparr>ctx_done := True\<rparr>)"
| grace_expires: "phase s = Shutting i wt errs \<Longrightarrow> run_step a Env s (s\<lparr>grace_expired := True\<rparr>)"
| select_err: "phase s = Selecting \<Longrightarrow> serveErr s = v # vs \<Longrightarrow>
    run_step a Main s (s\<lparr>serveErr := vs, phase := Deferring run_defers v\<rparr>)"
| select_done: "phase s = Selecting \<Longrightarrow> ctx_done s \<Longrightarrow> run_step a Main s (s\<lparr>phase := Shutting 0 False []\<rparr>)"
| shutdown_call: "phase s = Shutting i False errs \<Longrightarrow> i < length (servers a) \<Longrightarrow>
    run_step a Main s (s\<lparr>closed := (closed s)[i := True], phase := Shutting i True errs\<rparr>)"
| shutdown_drained: "phase s = Shutting i True errs \<Longrightarrow> i < length (servers a) \<Longrightarrow> in_service s ! i = 0 \<Longrightarrow>
    run_step a Main s (s\<lparr>phase := Shutting (Suc i) False
       (case lnerr of None \<Rightarrow> errs | Some e \<Rightarrow> errs @ [server_error a i e])\<rparr>)"
| shutdown_expired: "phase s = Shutting i True errs \<Longrightarrow> i < length (servers a) \<Longrightarrow> grace_expired s \<Longrightarrow>
    run_step a Main s (s\<lparr>phase := Shutting (Suc i) False (errs @ [server_error a i e])\<rparr>)"
| shutdown_done: "phase s = Shutting i False errs \<Longrightarrow> i \<ge> length (servers a) \<Longrightarrow>
    run_step a Main s (s\<lparr>phase := Deferring run_defers (errors_Join errs)\<rparr>)"
| deferred: "phase s = Deferring (d # ds) r \<Longrightarrow> run_step a Main s ((run_deferred a d s)\<lparr>phase := Deferring ds r\<rparr>)"
| exits: "phase s = Deferring [] r \<Longrightarrow> run_step a Main s (s\<lparr>phase := Exited r\<rparr>)"

inductive run_reachable :: "('s, 'k, 'b) app \<Rightarrow> 'b run_state \<Rightarrow> bool" for a where
  run_starts: "run_reachable a (run_init a)"
| run_continues: "run_reachable a s \<Longrightarrow> run_step a actor s t \<Longrightarrow> run_reachable a t"

inductive_cases main_stepE: "run_step a Main s t"
inductive_cases env_stepE: "run_step a Env s t"

section \<open>Invariants\<close>

lemma run_defers_eq: "run_defers = [ShutdownTracing, StopRateLimiter, ClosePool]"
  by (simp add: run_defers_def)

lemma run_deferred_frame [simp]:
  "serving (run_deferred a d s) = serving s" "closed (run_deferred a d s) = closed s" "in_service (run_deferred a d s) = in_service s"
  "serveErr (run_deferred a d s) = serveErr s" "ctx_done (run_deferred a d s) = ctx_done s"
  by (cases d; simp add: closePool_def stopRateLimiter_def shutdownTracing_def)+

text \<open>The servers whose \<open>Shutdown\<close> has returned are closed; they are drained unless an error was recorded.\<close>

definition drained_below :: "nat \<Rightarrow> 'b run_state \<Rightarrow> bool" where
  "drained_below n s \<longleftrightarrow> (\<forall>i < n. closed s ! i \<and> in_service s ! i = 0)"

definition shapes :: "('s, 'k, 'b) app \<Rightarrow> 'b run_state \<Rightarrow> bool" where
  "shapes a s \<longleftrightarrow> length (serving s) = length (servers a) \<and> length (closed s) = length (servers a) \<and> length (in_service s) = length (servers a)"

text \<open>Which resources are released by the deferred calls still to come.\<close>

definition released :: "('s, 'k, 'b) app \<Rightarrow> run_defer \<Rightarrow> 'b run_state \<Rightarrow> bool" where
  "released a d s =
     (case d of
        ClosePool \<Rightarrow> \<not> pool_open s
      | StopRateLimiter \<Rightarrow> (case run_limiter s of None \<Rightarrow> True | Some l \<Rightarrow> stopped l)
      | ShutdownTracing \<Rightarrow> \<not> tracer_on s)"

definition phase_inv :: "('s, 'k, 'b) app \<Rightarrow> 'b run_state \<Rightarrow> bool" where
  "phase_inv a s =
     (case phase s of
        Selecting \<Rightarrow> (\<forall>i < length (servers a). \<not> closed s ! i) \<and> None \<notin> set (serveErr s)
      | Shutting i wt errs \<Rightarrow> i \<le> length (servers a) \<and> (wt \<longrightarrow> i < length (servers a) \<and> closed s ! i) \<and> (errs = [] \<longrightarrow> drained_below i s)
      | Deferring ds r \<Rightarrow> (\<exists>before. before @ ds = run_defers \<and> (\<forall>d \<in> set before. released a d s))
          \<and> (r = None \<longrightarrow> drained_below (length (servers a)) s)
      | Exited r \<Rightarrow> (\<forall>d \<in> set run_defers. released a d s) \<and> (r = None \<longrightarrow> drained_below (length (servers a)) s))"

text \<open>A resource is in use exactly as long as it was built and its deferred call has not run.\<close>

definition resource_inv :: "('s, 'k, 'b) app \<Rightarrow> 'b run_state \<Rightarrow> bool" where
  "resource_inv a s \<longleftrightarrow> (app_pool a = None \<longrightarrow> \<not> pool_open s) \<and> (rateLimiter a = None \<longrightarrow> run_limiter s = None)
     \<and> (traceShutdown a = None \<longrightarrow> \<not> tracer_on s)
     \<and> (\<not> pool_open s \<and> app_pool a \<noteq> None \<longrightarrow> (case phase s of Deferring ds r \<Rightarrow> ds = [] | Exited r \<Rightarrow> True | _ \<Rightarrow> False))"

lemma shapes_step: "run_step a actor s t \<Longrightarrow> shapes a s \<Longrightarrow> shapes a t"
  by (induction rule: run_step.induct) (simp_all add: shapes_def)

lemma shapes_init: "shapes a (run_init a)"
  by (simp add: shapes_def run_init_def Let_def)

lemma drained_step:
  assumes "run_step a actor s t" and "shapes a s" and "drained_below n s" and "n \<le> length (servers a)"
  shows "drained_below n t"
  using assms
proof (induction rule: run_step.induct)
  case (request_comes i s)
  then show ?case by (auto simp: drained_below_def shapes_def nth_list_update)
next
  case (request_completes i s)
  then show ?case by (auto simp: drained_below_def shapes_def nth_list_update)
next
  case (shutdown_call s i errs)
  then show ?case by (auto simp: drained_below_def shapes_def nth_list_update)
qed (simp_all add: drained_below_def)

lemma released_env: "run_step a Env s t \<Longrightarrow> released a d t = released a d s"
  by (erule env_stepE) (simp_all add: released_def cong: run_defer.case_cong)

lemma released_deferred:
  assumes "resource_inv a s"
  shows "released a d (run_deferred a d s)" and "released a d s \<Longrightarrow> released a d (run_deferred a d' s)"
proof -
  show "released a d (run_deferred a d s)"
    using assms by (cases d; cases "app_pool a") (auto simp: released_def closePool_def stopRateLimiter_def shutdownTracing_def resource_inv_def Stop_def split: option.splits)
  show "released a d s \<Longrightarrow> released a d (run_deferred a d' s)"
    by (cases d; cases d') (auto simp: released_def closePool_def stopRateLimiter_def shutdownTracing_def Stop_def split: option.splits)
qed

lemma resource_init: "resource_inv a (run_init a)"
  by (cases "app_pool a") (simp_all add: resource_inv_def run_init_def Let_def)

lemma released_phase [simp]: "released a d (s\<lparr>phase := p\<rparr>) = released a d s"
  by (simp add: released_def cong: run_defer.case_cong)

lemma resource_step:
  assumes "run_step a actor s t" and "resource_inv a s" and "phase_inv a s"
  shows "resource_inv a t"
  using assms
proof (induction rule: run_step.induct)
  case (deferred s d ds r)
  from deferred have "ds = [] \<or> d \<noteq> ClosePool"
    by (auto simp: phase_inv_def run_defers_eq append_eq_Cons_conv)
  with deferred show ?case
    by (cases d) (auto simp: resource_inv_def closePool_def stopRateLimiter_def shutdownTracing_def)
qed (auto simp: resource_inv_def)

lemma closed_step: "run_step a Env s t \<Longrightarrow> closed t = closed s \<and> phase t = phase s"
  by (erule env_stepE) simp_all

lemma phase_inv_env:
  assumes "run_step a Env s t" and "shapes a s" and "phase_inv a s"
  shows "phase_inv a t"
proof -
  have ch: "None \<notin> set (serveErr t)" if "phase s = Selecting"
    using assms(1,3) that by (cases rule: env_stepE) (auto simp: phase_inv_def)
  have dr: "drained_below n s \<Longrightarrow> n \<le> length (servers a) \<Longrightarrow> drained_below n t" for n
    using drained_step [OF assms(1,2)] by blast
  from assms(3) closed_step [OF assms(1)] ch dr show ?thesis
    by (cases "phase s") (auto simp: phase_inv_def released_env [OF assms(1)])
qed

lemma drained_Suc: "drained_below i s \<Longrightarrow> closed s ! i \<Longrightarrow> in_service s ! i = 0 \<Longrightarrow> drained_below (Suc i) s"
  by (auto simp: drained_below_def less_Suc_eq)

lemma drained_phase [simp]: "drained_below n (s\<lparr>phase := p\<rparr>) = drained_below n s"
  by (simp add: drained_below_def)

lemma drained_deferred [simp]: "drained_below n (run_deferred a d s) = drained_below n s"
  by (simp add: drained_below_def)

lemma phase_inv_main:
  assumes "run_step a Main s t" and "shapes a s" and "phase_inv a s" and "resource_inv a s"
  shows "phase_inv a t"
  using assms(1)
proof (cases rule: run_step.cases)
  case (select_err v vs)
  with assms(3) show ?thesis by (auto simp: phase_inv_def run_defers_eq)
next
  case select_done
  then show ?thesis by (simp add: phase_inv_def drained_below_def)
next
  case (shutdown_call i errs)
  with assms(2,3) drained_step [OF assms(1,2), of i] show ?thesis by (auto simp: phase_inv_def shapes_def)
next
  case (shutdown_drained i errs lnerr)
  with assms(3) show ?thesis by (auto simp: phase_inv_def drained_Suc split: option.splits)
next
  case (shutdown_expired i errs e)
  with assms(3) show ?thesis by (auto simp: phase_inv_def)
next
  case (shutdown_done i errs)
  with assms(3) show ?thesis by (auto simp: phase_inv_def errors_Join_def)
next
  case (deferred d ds r)
  from assms(3) deferred obtain before where b: "before @ d # ds = run_defers" "\<forall>d \<in> set before. released a d s"
    by (auto simp: phase_inv_def)
  then have "(before @ [d]) @ ds = run_defers" by simp
  moreover have "\<forall>x \<in> set (before @ [d]). released a x (run_deferred a d s)"
    using b(2) released_deferred [OF assms(4)] by auto
  ultimately have ex: "\<exists>before. before @ ds = run_defers \<and> (\<forall>x \<in> set before. released a x (run_deferred a d s))" by blast
  have "r = None \<longrightarrow> drained_below (length (servers a)) s" using assms(3) deferred by (simp add: phase_inv_def)
  with ex show ?thesis using deferred by (simp add: phase_inv_def)
next
  case (exits r)
  with assms(3) show ?thesis by (auto simp: phase_inv_def)
qed

lemma reachable_inv: "run_reachable a s \<Longrightarrow> shapes a s \<and> phase_inv a s \<and> resource_inv a s"
proof (induction rule: run_reachable.induct)
  case run_starts
  have "phase_inv a (run_init a)" by (simp add: phase_inv_def run_init_def Let_def)
  then show ?case by (simp add: shapes_init resource_init)
next
  case (run_continues s actor t)
  then show ?case using shapes_step resource_step phase_inv_env phase_inv_main by (cases actor) blast+
qed

lemma run_limiter_kept: "run_reachable a s \<Longrightarrow> run_limiter s = None \<longleftrightarrow> rateLimiter a = None"
proof (induction rule: run_reachable.induct)
  case (run_continues s actor t)
  from run_continues(2,3) show ?case
  proof (induction rule: run_step.induct)
    case (deferred s d ds r)
    then show ?case by (cases d) (auto simp: closePool_def stopRateLimiter_def shutdownTracing_def)
  qed simp_all
qed (simp add: run_init_def Let_def)

section \<open>Progress\<close>

text \<open>Every step of \<open>Run\<close> itself brings it closer to its return; nothing around it takes it back.\<close>

fun phase_measure :: "nat \<Rightarrow> run_phase \<Rightarrow> nat" where
  "phase_measure n Selecting = 2 * n + 7"
| "phase_measure n (Shutting i waiting errs) = 2 * (n - i) + (if waiting then 4 else 5)"
| "phase_measure n (Deferring ds r) = length ds + 1"
| "phase_measure n (Exited r) = 0"

definition run_measure :: "('s, 'k, 'b) app \<Rightarrow> 'b run_state \<Rightarrow> nat" where
  "run_measure a s = phase_measure (length (servers a)) (phase s)"

lemma main_decreases: "run_step a Main s t \<Longrightarrow> run_measure a t < run_measure a s"
  by (erule main_stepE) (auto simp: run_measure_def run_defers_eq)

lemma main_enters: "run_step a Main s t \<Longrightarrow> phase t \<noteq> Selecting"
  by (erule main_stepE) auto

definition triggered :: "'b run_state \<Rightarrow> bool" where
  "triggered s \<longleftrightarrow> ctx_done s \<or> serveErr s \<noteq> [] \<or> phase s \<noteq> Selecting"

lemma triggered_step: "run_step a actor s t \<Longrightarrow> triggered s \<Longrightarrow> triggered t"
  by (induction rule: run_step.induct) (auto simp: triggered_def)

lemma expired_step: "run_step a actor s t \<Longrightarrow> grace_expired s \<Longrightarrow> grace_expired t"
proof (induction rule: run_step.induct)
  case (deferred s d ds r)
  then show ?case by (cases d) (simp_all add: closePool_def stopRateLimiter_def shutdownTracing_def)
qed simp_all

definition main_enabled :: "('s, 'k, 'b) app \<Rightarrow> 'b run_state \<Rightarrow> bool" where
  "main_enabled a s \<longleftrightarrow> (\<exists>t. run_step a Main s t)"

lemma main_enabled_I:
  assumes "phase_inv a s" and "triggered s" and "\<And>r. phase s \<noteq> Exited r"
    and "\<And>i errs. phase s = Shutting i True errs \<Longrightarrow> grace_expired s"
  shows "main_enabled a s"
proof (cases "phase s")
  case Selecting
  with assms(2) show ?thesis unfolding main_enabled_def triggered_def
    by (cases "serveErr s") (blast intro: select_done select_err)+
next
  case (Shutting i w errs)
  show ?thesis
  proof (cases w)
    case True
    with Shutting assms(1,4) show ?thesis unfolding main_enabled_def phase_inv_def
      by (auto intro: shutdown_expired)
  next
    case False
    with Shutting shutdown_call [of s i errs a] shutdown_done [of s i errs a] show ?thesis
      unfolding main_enabled_def by (cases "i < length (servers a)") (auto simp: not_less)
  qed
next
  case (Deferring ds r)
  then show ?thesis unfolding main_enabled_def by (cases ds) (blast intro: deferred exits)+
qed (use assms(3) in blast)

text \<open>The number of steps \<open>Run\<close> itself has taken.\<close>

inductive run_takes :: "('s, 'k, 'b) app \<Rightarrow> nat \<Rightarrow> 'b run_state \<Rightarrow> bool" for a where
  takes_none: "run_takes a 0 (run_init a)"
| takes_main: "run_takes a n s \<Longrightarrow> run_step a Main s t \<Longrightarrow> run_takes a (Suc n) t"
| takes_env: "run_takes a n s \<Longrightarrow> run_step a Env s t \<Longrightarrow> run_takes a n t"

lemma run_takes_reachable: "run_takes a n s \<Longrightarrow> run_reachable a s"
  by (induction rule: run_takes.induct) (blast intro: run_starts run_continues)+

lemma run_takes_measure: "run_takes a n s \<Longrightarrow> n + run_measure a s \<le> 2 * length (servers a) + 7"
proof (induction rule: run_takes.induct)
  case (takes_main n s t)
  with main_decreases [of a s t] show ?case by simp
next
  case (takes_env n s t)
  with closed_step [of a s t] show ?case by (simp add: run_measure_def)
qed (simp add: run_measure_def run_init_def Let_def)

text \<open>What \<open>Run\<close> can be waiting for.\<close>

definition run_waits :: "'b run_state \<Rightarrow> bool" where
  "run_waits s =
     (case phase s of
        Selecting \<Rightarrow> \<not> ctx_done s \<and> serveErr s = []
      | Shutting i waiting errs \<Rightarrow> waiting \<and> 0 < in_service s ! i \<and> \<not> grace_expired s
      | Deferring ds r \<Rightarrow> False
      | Exited r \<Rightarrow> True)"

lemma run_not_stuck: "phase_inv a s \<Longrightarrow> \<not> run_waits s \<Longrightarrow> main_enabled a s"
proof (cases "phase s")
  case (Shutting i w errs)
  assume "phase_inv a s" "\<not> run_waits s"
  with Shutting shutdown_call [of s i errs a] shutdown_done [of s i errs a] shutdown_drained [of s i errs a] shutdown_expired [of s i errs a]
  show ?thesis unfolding main_enabled_def run_waits_def phase_inv_def
    by (cases w; cases "i < length (servers a)") auto
qed (auto simp: run_waits_def triggered_def intro: main_enabled_I)

text \<open>
  Infinite runs: at every instant one step happens or nothing does.  \<open>Run\<close> is scheduled fairly (it does
  not stay enabled for ever without a step), and a shutdown that goes on sees its grace period expire.
\<close>

definition fair_run :: "('s, 'k, 'b) app \<Rightarrow> (nat \<Rightarrow> 'b run_state) \<Rightarrow> bool" where
  "fair_run a run \<longleftrightarrow> run 0 = run_init a
     \<and> (\<forall>k. run_step a Main (run k) (run (Suc k)) \<or> run_step a Env (run k) (run (Suc k)) \<or> run (Suc k) = run k)
     \<and> (\<forall>k. (\<forall>j \<ge> k. main_enabled a (run j)) \<longrightarrow> (\<exists>j \<ge> k. run_step a Main (run j) (run (Suc j))))
     \<and> (\<forall>k i errs. phase (run k) = Shutting i True errs \<longrightarrow> (\<exists>j \<ge> k. grace_expired (run j) \<or> phase (run j) \<noteq> phase (run k)))"

lemma fair_run_stable:
  assumes "fair_run a run" and "P (run k)" and "\<And>actor s t. run_step a actor s t \<Longrightarrow> P s \<Longrightarrow> P t" and "k \<le> j"
  shows "P (run j)"
  using assms(4)
proof (induction j rule: dec_induct)
  case (step n)
  from assms(1) have "run_step a Main (run n) (run (Suc n)) \<or> run_step a Env (run n) (run (Suc n)) \<or> run (Suc n) = run n"
    by (simp add: fair_run_def)
  then show ?case using step assms(3) by metis
qed (rule assms(2))

lemma fair_run_reachable: "fair_run a run \<Longrightarrow> run_reachable a (run k)"
  by (rule fair_run_stable [where k = 0]) (auto simp: fair_run_def intro: run_starts run_continues)

lemma measure_step: "run_step a actor s t \<Longrightarrow> run_measure a t \<le> run_measure a s"
  using main_decreases [of a s t] closed_step [of a s t] by (cases actor) (auto simp: run_measure_def)

text \<open>Once the measure has reached its least value, \<open>Run\<close> takes no more steps and its phase is final.\<close>

lemma fair_run_settles:
  assumes "fair_run a run"
  obtains K where "k \<le> K" "\<And>j. K \<le> j \<Longrightarrow> phase (run j) = phase (run K)" "\<And>j. K \<le> j \<Longrightarrow> \<not> run_step a Main (run j) (run (Suc j))"
proof -
  obtain K where K: "k \<le> K" "\<And>j. k \<le> j \<Longrightarrow> run_measure a (run K) \<le> run_measure a (run j)"
    using ex_has_least_nat [of "\<lambda>j. k \<le> j" k "\<lambda>j. run_measure a (run j)"] by auto
  have le: "run_measure a (run j) \<le> run_measure a (run K)" if "K \<le> j" for j
    by (rule fair_run_stable [OF assms, where P = "\<lambda>s. run_measure a s \<le> run_measure a (run K)", of K])
       (auto simp: that dest: measure_step)
  have no: "\<not> run_step a Main (run j) (run (Suc j))" if "K \<le> j" for j
  proof
    assume "run_step a Main (run j) (run (Suc j))"
    from main_decreases [OF this] le [OF that] have "run_measure a (run (Suc j)) < run_measure a (run K)" by simp
    moreover have "run_measure a (run K) \<le> run_measure a (run (Suc j))" using K that by simp
    ultimately show False by simp
  qed
  have "phase (run j) = phase (run K)" if "K \<le> j" for j
    using that
  proof (induction j rule: dec_induct)
    case (step n)
    from assms no [OF step(1)] have "run_step a Env (run n) (run (Suc n)) \<or> run (Suc n) = run n" by (auto simp: fair_run_def)
    with step closed_step show ?case by metis
  qed simp
  with K(1) no that show ?thesis by blast
qed

lemma fair_run_ends:
  assumes "fair_run a run" and "triggered (run k)"
  shows "\<exists>j r. phase (run j) = Exited r"
proof (rule ccontr)
  assume never: "\<nexists>j r. phase (run j) = Exited r"
  obtain K where K: "k \<le> K" "\<And>j. K \<le> j \<Longrightarrow> phase (run j) = phase (run K)" "\<And>j. K \<le> j \<Longrightarrow> \<not> run_step a Main (run j) (run (Suc j))"
    using fair_run_settles [OF assms(1)] by blast
  have trig: "triggered (run j)" if "K \<le> j" for j
    by (rule fair_run_stable [OF assms(1), of triggered k]) (use assms(2) triggered_step K(1) that in auto)
  have "\<exists>L \<ge> K. \<forall>j \<ge> L. \<forall>i errs. phase (run j) = Shutting i True errs \<longrightarrow> grace_expired (run j)"
  proof (cases "\<exists>i errs. phase (run K) = Shutting i True errs")
    case True
    then obtain i errs where ph: "phase (run K) = Shutting i True errs" by blast
    from assms(1) have "\<forall>k i errs. phase (run k) = Shutting i True errs \<longrightarrow> (\<exists>j \<ge> k. grace_expired (run j) \<or> phase (run j) \<noteq> phase (run k))"
      unfolding fair_run_def by (elim conjE)
    from this [rule_format, OF ph] K(2) obtain L where L: "K \<le> L" "grace_expired (run L)" by blast
    have "grace_expired (run j)" if "L \<le> j" for j
      by (rule fair_run_stable [OF assms(1), of grace_expired L]) (use L expired_step that in auto)
    with L(1) show ?thesis by blast
  next
    case False
    then have "phase (run j) \<noteq> Shutting i True errs" if "K \<le> j" for j i errs using K(2) [OF that] by auto
    then show ?thesis by (intro exI [of _ K]) simp
  qed
  then obtain L where L: "K \<le> L" and exp: "\<forall>j \<ge> L. \<forall>i errs. phase (run j) = Shutting i True errs \<longrightarrow> grace_expired (run j)"
    by (elim exE conjE)
  have "main_enabled a (run j)" if "L \<le> j" for j
  proof (rule main_enabled_I)
    show "phase_inv a (run j)" using reachable_inv [OF fair_run_reachable [OF assms(1)]] by blast
    show "triggered (run j)" using trig L that by simp
    show "phase (run j) \<noteq> Exited r" for r using never by blast
    show "grace_expired (run j)" if "phase (run j) = Shutting i True errs" for i errs using exp \<open>L \<le> j\<close> that by simp
  qed
  moreover from assms(1) have "(\<forall>j \<ge> L. main_enabled a (run j)) \<longrightarrow> (\<exists>j \<ge> L. run_step a Main (run j) (run (Suc j)))"
    unfolding fair_run_def by (elim conjE) (erule spec)
  ultimately obtain j where "L \<le> j" "run_step a Main (run j) (run (Suc j))" by blast
  moreover from this(1) L have "K \<le> j" by simp
  ultimately show False using K(3) by blast
qed

text \<open>A run of an application without metrics server: a signal, then a graceful shutdown.\<close>

definition graceful_run :: "('s, 'k, 'b) app \<Rightarrow> nat \<Rightarrow> 'b run_state" where
  "graceful_run a k =
     (let s0 = run_init a; s1 = s0\<lparr>ctx_done := True\<rparr>; s2 = s1\<lparr>phase := Shutting 0 False []\<rparr>;
          s3 = s2\<lparr>closed := [True], phase := Shutting 0 True []\<rparr>; s4 = s3\<lparr>phase := Shutting 1 False []\<rparr>;
          s5 = s4\<lparr>phase := Deferring run_defers None\<rparr>;
          s6 = (shutdownTracing a s5)\<lparr>phase := Deferring [StopRateLimiter, ClosePool] None\<rparr>;
          s7 = (stopRateLimiter a s6)\<lparr>phase := Deferring [ClosePool] None\<rparr>;
          s8 = (closePool a s7)\<lparr>phase := Deferring [] None\<rparr>;
          s9 = s8\<lparr>phase := Exited None\<rparr>
      in if k = 0 then s0 else if k = 1 then s1 else if k = 2 then s2 else if k = 3 then s3 else if k = 4 then s4
         else if k = 5 then s5 else if k = 6 then s6 else if k = 7 then s7 else if k = 8 then s8 else s9)"

lemma one_server: "metricsServer a = None \<Longrightarrow> length (servers a) = 1"
  by (simp add: servers_def Let_def)

lemma graceful_main:
  assumes "metricsServer a = None" and "1 \<le> k" and "k \<le> 8"
  shows "run_step a Main (graceful_run a k) (graceful_run a (Suc k))"
proof -
  note one = one_server [OF assms(1)]
  note run = graceful_run_def Let_def
  have "k = 1 \<or> k = 2 \<or> k = 3 \<or> k = 4 \<or> k = 5 \<or> k = 6 \<or> k = 7 \<or> k = 8" using assms(2,3) by arith
  moreover have "run_step a Main (graceful_run a 1) (graceful_run a 2)"
    using select_done [of "graceful_run a 1" a] by (simp add: run run_init_def)
  moreover have "run_step a Main (graceful_run a 2) (graceful_run a 3)"
    using shutdown_call [of "graceful_run a 2" 0 "[]" a] one by (simp add: run run_init_def)
  moreover have "run_step a Main (graceful_run a 3) (graceful_run a 4)"
    using shutdown_drained [of "graceful_run a 3" 0 "[]" a None] one by (simp add: run run_init_def)
  moreover have "run_step a Main (graceful_run a 4) (graceful_run a 5)"
    using shutdown_done [of "graceful_run a 4" 1 "[]" a] one by (simp add: run errors_Join_def)
  moreover have "run_step a Main (graceful_run a 5) (graceful_run a 6)"
    using deferred [of "graceful_run a 5" ShutdownTracing "[StopRateLimiter, ClosePool]" None a] by (simp add: run run_defers_eq)
  moreover have "run_step a Main (graceful_run a 6) (graceful_run a 7)"
    using deferred [of "graceful_run a 6" StopRateLimiter "[ClosePool]" None a] by (simp add: run)
  moreover have "run_step a Main (graceful_run a 7) (graceful_run a 8)"
    using deferred [of "graceful_run a 7" ClosePool "[]" None a] by (simp add: run)
  moreover have "run_step a Main (graceful_run a 8) (graceful_run a 9)"
    using exits [of "graceful_run a 8" None a] by (simp add: run)
  ultimately show ?thesis by (elim disjE) (simp_all only: eval_nat_numeral One_nat_def BitM.simps)
qed

lemma graceful_end: "9 \<le> k \<Longrightarrow> graceful_run a k = graceful_run a 9" "phase (graceful_run a 9) = Exited None"
  by (auto simp: graceful_run_def Let_def)

lemma graceful_fair:
  assumes "metricsServer a = None"
  shows "fair_run a (graceful_run a)"
proof -
  have start: "run_step a Env (graceful_run a 0) (graceful_run a 1)" using signal [of a "graceful_run a 0"] by (simp add: graceful_run_def Let_def)
  have "run_step a Main (graceful_run a k) (graceful_run a (Suc k)) \<or> run_step a Env (graceful_run a k) (graceful_run a (Suc k))
      \<or> graceful_run a (Suc k) = graceful_run a k" for k
    using graceful_main [OF assms, of k] start graceful_end(1) [of k a] graceful_end(1) [of "Suc k" a]
    by (cases "k = 0"; cases "k \<le> 8") auto
  moreover have "\<exists>j \<ge> k. run_step a Main (graceful_run a j) (graceful_run a (Suc j))" if en: "\<forall>j \<ge> k. main_enabled a (graceful_run a j)" for k
  proof -
    have "\<not> main_enabled a (graceful_run a 9)"
      using graceful_end(2) [of a] by (auto simp: main_enabled_def elim: main_stepE)
    then have "k \<le> 8" using en graceful_end(1) [of k a] by (cases "k \<le> 8") auto
    then show ?thesis using graceful_main [OF assms, of 8] by auto
  qed
  moreover have "\<exists>j \<ge> k. grace_expired (graceful_run a j) \<or> phase (graceful_run a j) \<noteq> phase (graceful_run a k)"
    if "phase (graceful_run a k) = Shutting i True errs" for k i errs
    using that graceful_end(2) [of a] graceful_end(1) [of k a] by (cases "k \<le> 9") (auto intro!: exI [of _ 9])
  ultimately show ?thesis unfolding fair_run_def by (simp add: graceful_run_def [of a 0] Let_def)
qed

lemma inline_app: "\<exists>a :: (unit, key_db, int) app. metricsServer a = None \<and> app_pool a \<noteq> None"
proof -
  obtain A where "New ''b'' no_files shipped_parser [Contribution ''p'' (world_repo noopRepository :: (unit, key_db, int) app_world repository)] [WithPolicyDir []] = Inr A"
    using sample_New by blast
  then have "\<exists>a res'. App_New sample_env (sample_config\<lparr>MetricsAddr := []\<rparr>) sample_logger ''v1'' [] no_resources = (Inr a, res')
      \<and> metricsServer a = None \<and> app_pool a \<noteq> None"
    by (simp add: App_New_def resolveStore_def Connect_def authzInstaller_def resolveAuthenticator_def buildRateLimiter_def NewTracerProvider_def
        sample_env_def sample_config_def defaultConfig_def no_resources_def Let_def go_defs)
  then show ?thesis by blast
qed

section \<open>Properties\<close>





text \<open>
  C35. When one of two servers fails, \<open>Run\<close> does not shut the other one down: there is a run that ends
  with the pool closed while the API server still listens and has a request in service.
\<close>

theorem failing_server_drops_pool:
  assumes "app_pool a \<noteq> None" and "metricsServer a \<noteq> None"
  shows "\<exists>s e. run_reachable a s \<and> phase s = Exited (Some e) \<and> \<not> pool_open s
    \<and> serving s ! 0 \<and> \<not> closed s ! 0 \<and> in_service s ! 0 = 1"
proof -
  have two: "length (servers a) = 2" using assms(2) by (auto simp: servers_def Let_def)
  let ?e = "server_error a 1 (ErrorString ''accept failed'')"
  let ?s0 = "run_init a"
  define s1 where "s1 = ?s0\<lparr>in_service := [1, 0]\<rparr>"
  define s2 where "s2 = s1\<lparr>serving := [True, False], serveErr := [Some ?e]\<rparr>"
  define s3 where "s3 = s2\<lparr>serveErr := [], phase := Deferring run_defers (Some ?e)\<rparr>"
  define s4 where "s4 = (shutdownTracing a s3)\<lparr>phase := Deferring [StopRateLimiter, ClosePool] (Some ?e)\<rparr>"
  define s5 where "s5 = (stopRateLimiter a s4)\<lparr>phase := Deferring [ClosePool] (Some ?e)\<rparr>"
  define s6 where "s6 = (closePool a s5)\<lparr>phase := Deferring [] (Some ?e)\<rparr>"
  have init: "length (serving ?s0) = 2" "serving ?s0 = [True, True]" "closed ?s0 = [False, False]" "in_service ?s0 = [0, 0]"
    "serveErr ?s0 = []" "phase ?s0 = Selecting"
    using two by (simp_all add: run_init_def Let_def numeral_2_eq_2)
  have e: "\<not> errors_Is (ErrorString ''accept failed'') ErrServerClosed" by simp
  have "run_step a Env ?s0 s1" using request_comes [of 0 a ?s0] two init by (simp add: s1_def)
  moreover have "run_step a Env s1 s2" using listen_fails [OF _ _ e, of 1 a s1] two init by (simp add: s1_def s2_def)
  moreover have "run_step a Main s2 s3" using select_err [of s2 "Some ?e" "[]" a] init by (simp add: s1_def s2_def s3_def)
  moreover have "run_step a Main s3 s4"
    using deferred [of s3 ShutdownTracing "[StopRateLimiter, ClosePool]" "Some ?e" a] by (simp add: s3_def s4_def run_defers_eq)
  moreover have "run_step a Main s4 s5" using deferred [of s4 StopRateLimiter "[ClosePool]" "Some ?e" a] by (simp add: s4_def s5_def)
  moreover have "run_step a Main s5 s6" using deferred [of s5 ClosePool "[]" "Some ?e" a] by (simp add: s5_def s6_def)
  moreover have "run_step a Main s6 (s6\<lparr>phase := Exited (Some ?e)\<rparr>)" using exits [of s6 "Some ?e" a] by (simp add: s6_def)
  ultimately have "run_reachable a (s6\<lparr>phase := Exited (Some ?e)\<rparr>)" by (meson run_starts run_continues)
  moreover have "\<not> pool_open s6 \<and> serving s6 ! 0 \<and> \<not> closed s6 ! 0 \<and> in_service s6 ! 0 = 1"
    using assms(1) init by (auto simp: s6_def s5_def s4_def s3_def s2_def s1_def closePool_def stopRateLimiter_def shutdownTracing_def)
  ultimately show ?thesis by (intro exI [of _ "s6\<lparr>phase := Exited (Some ?e)\<rparr>"]) simp
qed

theorem failing_server_drops_pool_witness:
  "\<exists>(a :: (unit, key_db, int) app) s. run_reachable a s \<and> \<not> pool_open s \<and> serving s ! 0 \<and> in_service s ! 0 = 1"
proof -
  obtain a :: "(unit, key_db, int) app" where "app_pool a \<noteq> None" "metricsServer a \<noteq> None" using sample_app by blast
  from failing_server_drops_pool [OF this] show ?thesis by blast
qed



end
