(* ===== verification/Cli.thy ===== *)
theory Cli
  imports Lifecycle
begin

text \<open>
  The command line: \<open>internal/cli\<close> and \<open>cmd/template-go-api/main.go\<close>.

  cobra is a parameter (\<open>cobra_lib\<close>): it decides from the command tree and the arguments whether to
  refuse them, to print help or the version, or to run a command; then the persistent pre-run hook runs
  and, if it succeeds, the command's \<open>RunE\<close>.  A command is a node of a tree with the closures the source
  gives it.  Also parameters are the standard streams, \<open>os.WriteFile\<close>, the environment, and how
  \<open>App.Run\<close> returns, of which the proofs assume what \<open>Lifecycle\<close> shows.
\<close>

section \<open>The process\<close>

record cli_flag =
  fl_name :: string
  fl_value :: setting
  fl_changed :: bool

record viper_setup =
  vs_prefix :: string
  vs_replacer :: "(char \<times> char) list"
  vs_automatic :: bool
  vs_bound :: "cli_flag list"

record cli_state =
  stdout :: string
  stderr :: string
  files :: "(string \<times> string) list"
  held :: resources
  migrations :: "migrate_event list"
  vp_setup :: viper_setup

text \<open>What cobra hands to a hook: the flags of the root, those of the command itself, and \<open>--output\<close>.\<close>

record invocation =
  persistent_flags :: "cli_flag list"
  local_flags :: "cli_flag list"
  flag_output :: string

type_synonym cli_fn = "invocation \<Rightarrow> cli_state \<Rightarrow> go_error option \<times> cli_state"

datatype command =
  Command (cmd_Use: string) (cmd_VersionTemplate: string) (PersistentPreRunE: "cli_fn option") (RunE: "cli_fn option")
    (cmd_flags: "(string \<times> setting) list") (Commands: "command list")

datatype dispatch = Refuse go_error | PrintHelp string | PrintVersion | Run "string list" invocation

record cobra_lib =
  cobra_Find :: "command \<Rightarrow> string list \<Rightarrow> dispatch"
  cobra_Help :: "command \<Rightarrow> string"

record build_info =
  b_Version :: string
  b_Commit :: string
  b_Date :: string

record ('s, 'k, 'b, 'v, 'p) cli_env =
  ce_app :: "('s, 'k, 'b, 'v, 'p) app_env"
  ce_goose :: goose_lib
  ce_casts :: casts
  ce_cobra :: cobra_lib
  environ :: "string \<Rightarrow> string option"
  BindPFlag_error :: "cli_flag \<Rightarrow> go_error option"
  out_Write :: "string \<Rightarrow> nat \<times> go_error option"
  err_Write :: "string \<Rightarrow> nat \<times> go_error option"
  os_WriteFile :: "string \<Rightarrow> string \<Rightarrow> nat \<Rightarrow> string option \<times> go_error option"
  error_text :: "go_error \<Rightarrow> string"
  app_Run :: "('s, 'k, 'b) app \<Rightarrow> 'b run_state"

definition newline :: string where
  [go_defs]: "newline = [CHR 10]"

text \<open>A write appends the bytes it got through before an error.\<close>

definition write_out :: "('s, 'k, 'b, 'v, 'p) cli_env \<Rightarrow> string \<Rightarrow> cli_state \<Rightarrow> go_error option \<times> cli_state" where
  "write_out env text st = (case out_Write env text of (n, err) \<Rightarrow> (err, st\<lparr>stdout := stdout st @ take n text\<rparr>))"

definition write_err :: "('s, 'k, 'b, 'v, 'p) cli_env \<Rightarrow> string \<Rightarrow> cli_state \<Rightarrow> go_error option \<times> cli_state" where
  "write_err env text st = (case err_Write env text of (n, err) \<Rightarrow> (err, st\<lparr>stderr := stderr st @ take n text\<rparr>))"

section \<open>Build metadata and configuration (root.go)\<close>

definition versionLine :: "build_info \<Rightarrow> string" where
  "versionLine build = ''template-go-api '' @ b_Version build @ '' ('' @ b_Commit build @ '') built '' @ b_Date build"

definition withDefaults :: "build_info \<Rightarrow> build_info" where
  "withDefaults b0 =
     (let b1 = (if TrimSpace (b_Version b0) = [] then b0\<lparr>b_Version := ''dev''\<rparr> else b0);
          b2 = (if TrimSpace (b_Commit b1) = [] then b1\<lparr>b_Commit := ''none''\<rparr> else b1)
      in if TrimSpace (b_Date b2) = [] then b2\<lparr>b_Date := ''unknown''\<rparr> else b2)"

fun BindPFlags :: "(cli_flag \<Rightarrow> go_error option) \<Rightarrow> cli_flag list \<Rightarrow> viper_setup \<Rightarrow> go_error option \<times> viper_setup" where
  "BindPFlags bad [] vs = (None, vs)"
| "BindPFlags bad (f # fs) vs =
     (case bad f of
        Some e \<Rightarrow> (Some e, vs)
      | None \<Rightarrow> BindPFlags bad fs (vs\<lparr>vs_bound := vs_bound vs @ [f]\<rparr>))"

definition initializeConfig :: "('s, 'k, 'b, 'v, 'p) cli_env \<Rightarrow> cli_fn" where
  "initializeConfig env ivk st =
     (let vs = (vp_setup st)\<lparr>vs_prefix := ''TEMPLATE_GO_API'', vs_replacer := [(CHR ''-'', CHR ''_''), (CHR ''.'', CHR ''_'')],
                             vs_automatic := True\<rparr> in
      case BindPFlags (BindPFlag_error env) (persistent_flags ivk) vs of
        (Some e, vs1) \<Rightarrow> (Some (Errorf ''bind persistent flags: %w'' [] e), st\<lparr>vp_setup := vs1\<rparr>)
      | (None, vs1) \<Rightarrow>
          (case BindPFlags (BindPFlag_error env) (local_flags ivk) vs1 of
             (Some e, vs2) \<Rightarrow> (Some (Errorf ''bind flags: %w'' [] e), st\<lparr>vp_setup := vs2\<rparr>)
           | (None, vs2) \<Rightarrow> (None, st\<lparr>vp_setup := vs2\<rparr>)))"

text \<open>
  How viper looks a key up: a flag given on the command line, else a non-empty environment variable,
  whose name is the prefix and the key, joined by an underscore, upper-cased and with the replacer
  applied; else the default.  The keys are ASCII.
\<close>

definition upper_char :: "char \<Rightarrow> char" where
  "upper_char c = (if 97 \<le> byte c \<and> byte c \<le> 122 then char_of (byte c - 32) else c)"

definition env_name :: "viper_setup \<Rightarrow> string \<Rightarrow> string" where
  "env_name vs key =
     map (\<lambda>c. case map_of (vs_replacer vs) c of Some d \<Rightarrow> d | None \<Rightarrow> c) (map upper_char (vs_prefix vs @ ''_'' @ key))"

definition given_flags :: "viper_setup \<Rightarrow> (string \<times> setting) list" where
  "given_flags vs = map (\<lambda>f. (fl_name f, fl_value f)) (filter fl_changed (vs_bound vs))"

definition env_setting :: "(string \<Rightarrow> string option) \<Rightarrow> viper_setup \<Rightarrow> string \<Rightarrow> setting option" where
  "env_setting environment vs key =
     (case environment (env_name vs key) of
        None \<Rightarrow> None
      | Some v \<Rightarrow> if v = [] then None else Some (SString v))"

definition given_env :: "(string \<Rightarrow> string option) \<Rightarrow> viper_setup \<Rightarrow> (string \<times> setting) list" where
  "given_env environment vs =
     (if vs_automatic vs
      then List.map_filter (\<lambda>(key, d). map_option (Pair key) (env_setting environment vs key)) (RegisterFlags [])
      else [])"

definition viper_of :: "('s, 'k, 'b, 'v, 'p) cli_env \<Rightarrow> cli_state \<Rightarrow> viper" where
  "viper_of env st = \<lparr>vp_given = given_flags (vp_setup st) @ given_env (environ env) (vp_setup st), vp_defaults = []\<rparr>"

section \<open>Commands\<close>

text \<open>\<open>serve\<close> (serve.go): when \<open>Run\<close> has returned, what it released is no longer held.\<close>

definition after_run :: "('s, 'k, 'b) app \<Rightarrow> 'b run_state \<Rightarrow> resources \<Rightarrow> resources" where
  "after_run a s res =
     res\<lparr>pools_open := pools_open res - (if app_pool a \<noteq> None \<and> \<not> pool_open s then 1 else 0),
         janitors := janitors res - (case run_limiter s of Some l \<Rightarrow> if stopped l then 1 else 0 | None \<Rightarrow> 0),
         otel := (otel res)\<lparr>ot_exporters := ot_exporters (otel res) - (if traceShutdown a \<noteq> None \<and> \<not> tracer_on s then 1 else 0)\<rparr>\<rparr>"

definition run_result :: "'b run_state \<Rightarrow> go_error option" where
  "run_result s = (case phase s of Exited r \<Rightarrow> r | _ \<Rightarrow> None)"

definition runServe :: "('s, 'k, 'b, 'v, 'p) cli_env \<Rightarrow> build_info \<Rightarrow> cli_fn" where
  "runServe env build ivk st =
     (let cfg = Load (ce_casts env) (viper_of env st) in
      case Validate cfg of
        Some e \<Rightarrow> (Some (Errorf ''invalid configuration: %w'' [] e), st)
      | None \<Rightarrow>
          (let lg = NewLogger (ParseLevel (LogLevel cfg)) (LogFormat cfg) in
           case App_New (ce_app env) cfg lg (b_Version build) [] (held st) of
             (Inl e, res) \<Rightarrow> (Some (Errorf ''build application: %w'' [] e), st\<lparr>held := res\<rparr>)
           | (Inr a, res) \<Rightarrow>
               (let s = app_Run env a; st1 = st\<lparr>held := after_run a s res\<rparr> in
                case run_result s of
                  Some e \<Rightarrow> (Some (Errorf ''run server: %w'' [] e), st1)
                | None \<Rightarrow> (None, st1))))"

definition newServeCommand :: "('s, 'k, 'b, 'v, 'p) cli_env \<Rightarrow> build_info \<Rightarrow> command" where
  "newServeCommand env build = Command ''serve'' [] None (Some (runServe env build)) [] []"

definition newVersionCommand :: "('s, 'k, 'b, 'v, 'p) cli_env \<Rightarrow> build_info \<Rightarrow> command" where
  "newVersionCommand env build =
     Command ''version'' [] None
       (Some (\<lambda>ivk st. case write_out env (versionLine build @ newline) st of
          (Some e, st1) \<Rightarrow> (Some (Errorf ''write version: %w'' [] e), st1)
        | (None, st1) \<Rightarrow> (None, st1))) [] []"

definition openAPICommandName :: string where
  [go_defs]: "openAPICommandName = ''openapi''"

definition openAPIFilePerm :: nat where
  [go_defs]: "openAPIFilePerm = 6 * 8 * 8"

text \<open>\<open>os.WriteFile\<close> may leave a file behind, whole or in part, also when it fails.\<close>

definition newOpenAPICommand :: "('s, 'k, 'b, 'v, 'p) cli_env \<Rightarrow> build_info \<Rightarrow> command" where
  "newOpenAPICommand env build =
     Command openAPICommandName [] None
       (Some (\<lambda>ivk st.
          case OpenAPIYAML (ce_app env) (b_Version build) of
            Inl e \<Rightarrow> (Some (Errorf ''generate openapi spec: %w'' [] e), st)
          | Inr spec \<Rightarrow>
              (if flag_output ivk = [] \<or> flag_output ivk = ''-''
               then (case write_out env spec st of
                       (Some e, st1) \<Rightarrow> (Some (Errorf ''write openapi spec: %w'' [] e), st1)
                     | (None, st1) \<Rightarrow> (None, st1))
               else (case os_WriteFile env (flag_output ivk) spec openAPIFilePerm of
                       (left, err) \<Rightarrow>
                         (let st1 = (case left of None \<Rightarrow> st | Some c \<Rightarrow> st\<lparr>files := aput (flag_output ivk) c (files st)\<rparr>) in
                          case err of
                            Some e \<Rightarrow> (Some (Errorf ''write openapi spec to %q: %w'' [flag_output ivk] e), st1)
                          | None \<Rightarrow> (None, st1)))))) [(''output'', SString [])] []"

definition runMigrate :: "('s, 'k, 'b, 'v, 'p) cli_env \<Rightarrow> string \<Rightarrow> cli_fn" where
  "runMigrate env verb ivk st =
     (let cfg = Load (ce_casts env) (viper_of env st) in
      if TrimSpace (DatabaseURL cfg) = [] then (Some (ErrorFmt ''database-url is required for migrate %s'' [verb]), st)
      else case Migrate (ce_goose env) (DatabaseURL cfg) verb [] of
        (err, events) \<Rightarrow>
          (map_option (Errorf ''migrate %s: %w'' [verb]) err, st\<lparr>migrations := migrations st @ events\<rparr>))"

definition newMigrateVerbCommand :: "('s, 'k, 'b, 'v, 'p) cli_env \<Rightarrow> string \<Rightarrow> command" where
  "newMigrateVerbCommand env verb = Command verb [] None (Some (runMigrate env verb)) [] []"

definition newMigrateCommand :: "('s, 'k, 'b, 'v, 'p) cli_env \<Rightarrow> command" where
  "newMigrateCommand env =
     Command ''migrate'' [] None None []
       [newMigrateVerbCommand env ''up'', newMigrateVerbCommand env ''down'', newMigrateVerbCommand env ''status'']"

definition NewRootCommand :: "('s, 'k, 'b, 'v, 'p) cli_env \<Rightarrow> build_info \<Rightarrow> command" where
  "NewRootCommand env build0 =
     (let build = withDefaults build0
      in Command ''template-go-api'' (versionLine build @ newline) (Some (initializeConfig env)) (Some (runServe env build))
           (RegisterFlags [])
           [newServeCommand env build, newVersionCommand env build, newOpenAPICommand env build, newMigrateCommand env])"

section \<open>Execution (main.go)\<close>

text \<open>The innermost command on a path of names.\<close>

fun find_command :: "command \<Rightarrow> string list \<Rightarrow> command" where
  "find_command c [] = c"
| "find_command c (n # ns) =
     (case find (\<lambda>d. cmd_Use d = n) (Commands c) of Some d \<Rightarrow> find_command d ns | None \<Rightarrow> c)"

text \<open>A command without \<open>RunE\<close> prints its help; the pre-run hook of the root runs before every other.\<close>

definition ExecuteContext :: "('s, 'k, 'b, 'v, 'p) cli_env \<Rightarrow> command \<Rightarrow> string list \<Rightarrow> cli_state \<Rightarrow> go_error option \<times> cli_state" where
  "ExecuteContext env rootc args st =
     (case cobra_Find (ce_cobra env) rootc args of
        Refuse e \<Rightarrow> (Some e, st)
      | PrintHelp text \<Rightarrow> (None, snd (write_out env text st))
      | PrintVersion \<Rightarrow> write_out env (cmd_VersionTemplate rootc) st
      | Run path ivk \<Rightarrow>
          (let c = find_command rootc path in
           case RunE c of
             None \<Rightarrow> (None, snd (write_out env (cobra_Help (ce_cobra env) c) st))
           | Some f \<Rightarrow>
               (case PersistentPreRunE rootc of
                  None \<Rightarrow> f ivk st
                | Some pre \<Rightarrow>
                    (case pre ivk st of
                       (Some e, st1) \<Rightarrow> (Some e, st1)
                     | (None, st1) \<Rightarrow> f ivk st1))))"

definition main_run :: "('s, 'k, 'b, 'v, 'p) cli_env \<Rightarrow> build_info \<Rightarrow> string list \<Rightarrow> cli_state \<Rightarrow> int \<times> cli_state" where
  "main_run env build args st =
     (case ExecuteContext env (NewRootCommand env build) args st of
        (Some e, st1) \<Rightarrow>
          (case write_err env (error_text env e @ newline) st1 of
             (Some write_failed, st2) \<Rightarrow> (1, st2)
           | (None, st2) \<Rightarrow> (1, st2))
      | (None, st1) \<Rightarrow> (0, st1))"

section \<open>Lemmas\<close>

lemmas command_defs = NewRootCommand_def newServeCommand_def newVersionCommand_def newOpenAPICommand_def
  newMigrateCommand_def newMigrateVerbCommand_def Let_def

lemma root_runs:
  "RunE (find_command (NewRootCommand env build) []) = Some (runServe env (withDefaults build))"
  "RunE (find_command (NewRootCommand env build) [''serve'']) = Some (runServe env (withDefaults build))"
  "verb \<in> {''up'', ''down'', ''status''} \<Longrightarrow> RunE (find_command (NewRootCommand env build) [''migrate'', verb]) = Some (runMigrate env verb)"
  "RunE (find_command (NewRootCommand env build) [''migrate'']) = None"
  "PersistentPreRunE (NewRootCommand env build) = Some (initializeConfig env)"
  by (auto simp: command_defs go_defs)

lemma write_err_frame:
  "write_err env t st = (e, st') \<Longrightarrow> held st' = held st \<and> migrations st' = migrations st \<and> files st' = files st \<and> stdout st' = stdout st \<and> vp_setup st' = vp_setup st"
  by (auto simp: write_err_def split: prod.splits)

lemma write_out_frame:
  "write_out env t st = (e, st') \<Longrightarrow> held st' = held st \<and> migrations st' = migrations st \<and> files st' = files st \<and> stderr st' = stderr st \<and> vp_setup st' = vp_setup st"
  by (auto simp: write_out_def split: prod.splits)

lemma initializeConfig_frame: "initializeConfig env ivk st = (e, st1) \<Longrightarrow> \<exists>vs. st1 = st\<lparr>vp_setup := vs\<rparr>"
  by (auto simp: initializeConfig_def Let_def split: prod.splits option.splits)

text \<open>A command that is run through \<open>main\<close>: the hook, then the command, then the exit status.\<close>

lemma main_run_command:
  assumes "cobra_Find (ce_cobra env) (NewRootCommand env build) args = Run path ivk"
    and "RunE (find_command (NewRootCommand env build) path) = Some f"
    and "initializeConfig env ivk st = (e, st1)"
    and "(case e of Some x \<Rightarrow> (Some x, st1) | None \<Rightarrow> f ivk st1) = (r, st2)"
    and "main_run env build args st = (code, st')"
  shows "code = (if r = None then 0 else 1) \<and> held st' = held st2 \<and> migrations st' = migrations st2
    \<and> files st' = files st2 \<and> stdout st' = stdout st2"
proof -
  have ex: "ExecuteContext env (NewRootCommand env build) args st = (r, st2)"
    using assms(1-4) by (simp add: ExecuteContext_def Let_def root_runs split: option.splits)
  show ?thesis
  proof (cases r)
    case None
    with ex assms(5) show ?thesis by (simp add: main_run_def)
  next
    case (Some x)
    obtain y st3 where w: "write_err env (error_text env x @ newline) st2 = (y, st3)" by fastforce
    from write_err_frame [OF w] w ex Some assms(5) show ?thesis by (cases y) (auto simp: main_run_def)
  qed
qed

subsection \<open>Configuration\<close>

lemma BindPFlags_ok: "BindPFlags bad fs vs = (None, vs') \<Longrightarrow> vs' = vs\<lparr>vs_bound := vs_bound vs @ fs\<rparr>"
  by (induction bad fs vs rule: BindPFlags.induct) (auto split: option.splits)

definition bound_setup :: "cli_flag list \<Rightarrow> viper_setup" where
  "bound_setup flags =
     \<lparr>vs_prefix = ''TEMPLATE_GO_API'', vs_replacer = [(CHR ''-'', CHR ''_''), (CHR ''.'', CHR ''_'')], vs_automatic = True,
      vs_bound = flags\<rparr>"

lemma initializeConfig_ok:
  "initializeConfig env ivk st = (None, st1) \<Longrightarrow>
     st1 = st\<lparr>vp_setup := bound_setup (vs_bound (vp_setup st) @ persistent_flags ivk @ local_flags ivk)\<rparr>"
  by (auto simp: initializeConfig_def Let_def bound_setup_def dest!: BindPFlags_ok split: prod.splits option.splits)

lemma map_of_map_filter:
  "map_of (List.map_filter (\<lambda>(k, d). map_option (Pair k) (g k)) xs) key = (if key \<in> fst ` set xs then g key else None)"
  by (induction xs) (auto simp: List.map_filter_simps split: option.splits)

lemma map_of_given_flags:
  "map_of (map (\<lambda>f. (fl_name f, fl_value f)) (filter fl_changed fs)) key = map_option fl_value (find (\<lambda>f. fl_changed f \<and> fl_name f = key) fs)"
  by (induction fs) auto

lemma upper_char_sep: "(upper_char c = CHR ''-'') = (c = CHR ''-'')" "(upper_char c = CHR ''.'') = (c = CHR ''.'')"
proof -
  have "\<forall>c. ((upper_char c = CHR ''-'') = (c = CHR ''-'')) \<and> ((upper_char c = CHR ''.'') = (c = CHR ''.''))" by code_simp
  then show "(upper_char c = CHR ''-'') = (c = CHR ''-'')" "(upper_char c = CHR ''.'') = (c = CHR ''.'')" by blast+
qed

text \<open>A flag's name in capitals with \<open>_\<close> for \<open>-\<close> and \<open>.\<close>.\<close>

definition env_suffix :: "string \<Rightarrow> string" where
  "env_suffix key = map (\<lambda>c. if c = CHR ''-'' \<or> c = CHR ''.'' then CHR ''_'' else upper_char c) key"

lemma env_name_bound:
  "env_name (bound_setup fs) key =
     ''TEMPLATE_GO_API_'' @ env_suffix key"
  by (simp add: env_name_def bound_setup_def upper_char_def env_suffix_def upper_char_sep [unfolded upper_char_def] cong: if_cong)

lemma vp_find_bound:
  assumes "map_of (RegisterFlags []) key = Some dflt" and "vp_setup st = bound_setup fs"
  shows "vp_find (setDefaults (viper_of env st)) key =
      (case find (\<lambda>f. fl_changed f \<and> fl_name f = key) fs of
         Some f \<Rightarrow> Some (fl_value f)
       | None \<Rightarrow> (case env_setting (environ env) (bound_setup fs) key of None \<Rightarrow> Some dflt | Some v \<Rightarrow> Some v))"
proof -
  have "key \<in> fst ` set (RegisterFlags [])" using assms(1) by (metis map_of_eq_None_iff option.distinct(1))
  moreover have "vp_given (setDefaults vp) = vp_given vp" for vp by (simp add: setDefaults_def SetDefault_def Let_def)
  moreover have "vs_automatic (bound_setup fs)" "vs_bound (bound_setup fs) = fs" by (simp_all add: bound_setup_def)
  ultimately show ?thesis using assms
    by (simp add: vp_find_def setDefaults_defaults viper_of_def given_flags_def given_env_def map_of_given_flags map_of_map_filter
        map_add_def split: option.splits)
qed

text \<open>How \<open>App.Run\<close> returns: in a state that its steps can reach.\<close>

definition run_contract :: "('s, 'k, 'b, 'v, 'p) cli_env \<Rightarrow> bool" where
  "run_contract env \<longleftrightarrow> (\<forall>a. run_reachable a (app_Run env a) \<and> (\<exists>r. phase (app_Run env a) = Exited r))"

lemma after_run_restores:
  assumes new: "App_New env cfg lg version [] res = (Inr a, res')" and r: "run_reachable a s" "phase s = Exited r"
  shows "pools_open (after_run a s res') = pools_open res \<and> janitors (after_run a s res') = janitors res"
proof -
  note inv = reachable_inv [OF r(1)]
  from inv have limiter: "run_limiter s = None \<longleftrightarrow> rateLimiter a = None" using run_limiter_kept [OF r(1)] by simp
  from inv r(2) have rel: "\<not> pool_open s" "case run_limiter s of None \<Rightarrow> True | Some l \<Rightarrow> stopped l"
    by (auto simp: phase_inv_def run_defers_eq released_def)
  from New_accounts [OF new] rel limiter show ?thesis
    by (auto simp: after_run_def split: option.splits)
qed

text \<open>A run that ends at once: the API server cannot listen.\<close>

definition refused_run :: "('s, 'k, 'b) app \<Rightarrow> 'b run_state" where
  "refused_run a =
     (let e = server_error a 0 (ErrorString ''address already in use'');
          s1 = (run_init a)\<lparr>serving := (serving (run_init a))[0 := False], serveErr := [Some e]\<rparr>;
          s2 = s1\<lparr>serveErr := [], phase := Deferring run_defers (Some e)\<rparr>;
          s3 = (shutdownTracing a s2)\<lparr>phase := Deferring [StopRateLimiter, ClosePool] (Some e)\<rparr>;
          s4 = (stopRateLimiter a s3)\<lparr>phase := Deferring [ClosePool] (Some e)\<rparr>;
          s5 = (closePool a s4)\<lparr>phase := Deferring [] (Some e)\<rparr>
      in s5\<lparr>phase := Exited (Some e)\<rparr>)"

lemma refused_run_exits: "phase (refused_run a) = Exited (Some (server_error a 0 (ErrorString ''address already in use'')))"
  by (simp add: refused_run_def Let_def)

lemma refused_run_reachable: "run_reachable a (refused_run a)"
proof -
  let ?e = "server_error a 0 (ErrorString ''address already in use'')"
  define s1 where "s1 = (run_init a)\<lparr>serving := (serving (run_init a))[0 := False], serveErr := [Some ?e]\<rparr>"
  define s2 where "s2 = s1\<lparr>serveErr := [], phase := Deferring run_defers (Some ?e)\<rparr>"
  define s3 where "s3 = (shutdownTracing a s2)\<lparr>phase := Deferring [StopRateLimiter, ClosePool] (Some ?e)\<rparr>"
  define s4 where "s4 = (stopRateLimiter a s3)\<lparr>phase := Deferring [ClosePool] (Some ?e)\<rparr>"
  define s5 where "s5 = (closePool a s4)\<lparr>phase := Deferring [] (Some ?e)\<rparr>"
  have n: "0 < length (servers a)" by (simp add: servers_def Let_def split: option.split)
  have "run_step a Env (run_init a) s1"
    using listen_fails [of 0 a "run_init a" "ErrorString ''address already in use''"] n by (simp add: s1_def run_init_def Let_def)
  moreover have "run_step a Main s1 s2" using select_err [of s1 "Some ?e" "[]" a] by (simp add: s1_def s2_def run_init_def Let_def)
  moreover have "run_step a Main s2 s3"
    using deferred [of s2 ShutdownTracing "[StopRateLimiter, ClosePool]" "Some ?e" a] by (simp add: s2_def s3_def run_defers_eq)
  moreover have "run_step a Main s3 s4" using deferred [of s3 StopRateLimiter "[ClosePool]" "Some ?e" a] by (simp add: s3_def s4_def)
  moreover have "run_step a Main s4 s5" using deferred [of s4 ClosePool "[]" "Some ?e" a] by (simp add: s4_def s5_def)
  moreover have "run_step a Main s5 (refused_run a)"
    using exits [of s5 "Some ?e" a] by (simp add: s5_def refused_run_def s4_def s3_def s2_def s1_def Let_def)
  ultimately show ?thesis by (meson run_starts run_continues)
qed

text \<open>For the examples: a process whose arguments cobra resolves to a given command, with working streams.\<close>

definition sample_cli :: "dispatch \<Rightarrow> (unit, key_db, int, bool, scope_policy) cli_env" where
  "sample_cli d =
     \<lparr>ce_app = sample_env, ce_goose = \<lparr>sql_Open = (\<lambda>_ _. None), goose_SetDialect = (\<lambda>_. None), goose_Run = (\<lambda>_ _ _. None)\<rparr>,
      ce_casts = plain_casts, ce_cobra = \<lparr>cobra_Find = (\<lambda>c args. d), cobra_Help = (\<lambda>c. [])\<rparr>,
      environ = (\<lambda>v. if v = ''TEMPLATE_GO_API_DATABASE_URL'' then Some ''postgres:'' else None),
      BindPFlag_error = (\<lambda>f. None), out_Write = (\<lambda>t. (length t, None)), err_Write = (\<lambda>t. (length t, None)),
      os_WriteFile = (\<lambda>name t perm. (Some t, None)), error_text = (\<lambda>e. ''error''), app_Run = refused_run\<rparr>"

definition fresh_process :: cli_state where
  "fresh_process =
     \<lparr>stdout = [], stderr = [], files = [], held = no_resources, migrations = [],
      vp_setup = \<lparr>vs_prefix = [], vs_replacer = [], vs_automatic = False, vs_bound = []\<rparr>\<rparr>"

definition no_flags :: invocation where
  "no_flags = \<lparr>persistent_flags = [], local_flags = [], flag_output = []\<rparr>"

lemma sample_run_contract: "run_contract (sample_cli d)"
  using refused_run_reachable refused_run_exits by (auto simp: run_contract_def sample_cli_def)

lemma report_frame:
  assumes "path \<in> {[''version''], [openAPICommandName]}"
  shows "\<exists>f. RunE (find_command (NewRootCommand env build) path) = Some f
    \<and> (\<forall>ivk st r st2. f ivk st = (r, st2) \<longrightarrow> held st2 = held st \<and> migrations st2 = migrations st)"
proof (cases "path = [''version'']")
  case True
  then show ?thesis by (auto simp: command_defs openAPICommandName_def dest!: write_out_frame split: prod.splits option.splits)
next
  case False
  with assms show ?thesis
    by (auto simp: command_defs openAPICommandName_def dest!: write_out_frame split: prod.splits option.splits sum.splits if_splits)
qed

lemma runMigrate_spec:
  assumes "runMigrate env verb ivk st = (r, st2)" and "url = DatabaseURL (Load (ce_casts env) (viper_of env st))"
  shows "held st2 = held st \<and> stdout st2 = stdout st \<and> files st2 = files st
    \<and> (case Migrate (ce_goose env) url verb [] of (err, events) \<Rightarrow>
         if TrimSpace url = [] then r \<noteq> None \<and> migrations st2 = migrations st
         else (r = None \<longleftrightarrow> err = None) \<and> migrations st2 = migrations st @ events)"
  using assms by (auto simp: runMigrate_def Let_def split: prod.splits if_splits)

lemma runServe_spec:
  assumes "runServe env build ivk st = (r, st2)" and "cfg = Load (ce_casts env) (viper_of env st)" and "run_contract env"
  shows "\<exists>res. st2 = st\<lparr>held := res\<rparr>
    \<and> (if Validate cfg \<noteq> None then r \<noteq> None \<and> res = held st
       else case App_New (ce_app env) cfg (NewLogger (ParseLevel (LogLevel cfg)) (LogFormat cfg)) (b_Version build) [] (held st) of
           (Inl e, res') \<Rightarrow> r \<noteq> None \<and> res = res'
         | (Inr a, res') \<Rightarrow>
             pools_open res = pools_open (held st) \<and> janitors res = janitors (held st)
             \<and> (r = None \<longleftrightarrow> phase (app_Run env a) = Exited None)
             \<and> (r = None \<longrightarrow> drained_below (length (servers a)) (app_Run env a)))"
proof (cases "Validate cfg")
  case (Some e)
  with assms(1) have "r \<noteq> None \<and> st2 = st" by (auto simp: runServe_def assms(2) Let_def)
  with Some show ?thesis by (intro exI [of _ "held st"]) simp
next
  case None
  obtain n res where N: "App_New (ce_app env) cfg (NewLogger (ParseLevel (LogLevel cfg)) (LogFormat cfg)) (b_Version build) [] (held st) = (n, res)"
    by fastforce
  show ?thesis
  proof (cases n)
    case (Inl e)
    with assms(1) None N have "r \<noteq> None \<and> st2 = st\<lparr>held := res\<rparr>" by (auto simp: runServe_def assms(2) Let_def)
    with None N Inl show ?thesis by auto
  next
    case (Inr a)
    from assms(3) obtain x where x: "run_reachable a (app_Run env a)" "phase (app_Run env a) = Exited x" by (auto simp: run_contract_def)
    from assms(1) None N Inr x have "r = map_option (Errorf ''run server: %w'' []) x \<and> st2 = st\<lparr>held := after_run a (app_Run env a) res\<rparr>"
      by (cases x) (auto simp: runServe_def assms(2) Let_def run_result_def)
    moreover have "x = None \<Longrightarrow> drained_below (length (servers a)) (app_Run env a)"
      using reachable_inv [OF x(1)] x(2) by (simp add: phase_inv_def)
    moreover note after_run_restores [OF N [unfolded Inr] x]
    ultimately show ?thesis using None N Inr x by (intro exI [of _ "after_run a (app_Run env a) res"]) auto
  qed
qed

lemma sample_build: "b_Version (withDefaults \<lparr>b_Version = ''v1'', b_Commit = ''c'', b_Date = ''d''\<rparr>) = ''v1''"
proof -
  have "TrimSpace ''v1'' \<noteq> []" by code_simp
  then show ?thesis by (simp add: withDefaults_def Let_def)
qed

lemma sample_config_valid: "Validate sample_config = None"
proof -
  have "TrimSpace ''postgres:'' \<noteq> []" by code_simp
  with default_config_accepts(2) [of "''postgres:''"] show ?thesis by (simp add: sample_config_def)
qed

lemma sample_environ: "given_env (environ (sample_cli d)) (bound_setup []) = [(''database-url'', SString ''postgres:'')]"
proof -
  have "given_env (\<lambda>v. if v = ''TEMPLATE_GO_API_DATABASE_URL'' then Some ''postgres:'' else None) (bound_setup [])
      = [(''database-url'', SString ''postgres:'')]"
    by code_simp
  then show ?thesis by (simp add: sample_cli_def)
qed

lemma sample_cli_config:
  "fst (initializeConfig (sample_cli d) no_flags fresh_process) = None"
  "Load (ce_casts (sample_cli d)) (viper_of (sample_cli d) (snd (initializeConfig (sample_cli d) no_flags fresh_process))) = sample_config"
proof -
  have init: "initializeConfig (sample_cli d) no_flags fresh_process = (None, fresh_process\<lparr>vp_setup := bound_setup []\<rparr>)"
    by (simp add: initializeConfig_def no_flags_def fresh_process_def bound_setup_def Let_def)
  then show "fst (initializeConfig (sample_cli d) no_flags fresh_process) = None" by simp
  have "ce_casts (sample_cli d) = plain_casts" by (simp add: sample_cli_def)
  with init sample_environ [of d] Load_defaults(2) [OF plain_casts_ok, of "''postgres:''" "[]"]
  show "Load (ce_casts (sample_cli d)) (viper_of (sample_cli d) (snd (initializeConfig (sample_cli d) no_flags fresh_process))) = sample_config"
    by (simp add: viper_of_def given_flags_def sample_config_def) (simp add: bound_setup_def)
qed

section \<open>Properties\<close>







end
