(* ===== verification/Spec2Isabelle.thy ===== *)
theory Spec2Isabelle
  imports TodoAgreement Cli
begin

text \<open>
  A verification development for \<^verbatim>\<open>template-go-api\<close>, a small HTTP API server in Go: todos in
  PostgreSQL behind a paginated API, Cedar authorization with API keys, per-client rate limiting,
  observability, and the lifecycle of the process.  Every theory opens with what it models; this text
  says how they fit together.

  \<^bold>\<open>The program and its theories\<close>, from the values outward (files under \<^verbatim>\<open>src/internal\<close>):

  \<^item> \<open>Prelude\<close>, \<open>GoStrings\<close>, \<open>GoTime\<close>, \<open>GoFloat\<close>, \<open>GoJson\<close>, \<open>GoLog\<close>, \<open>Base64\<close>, \<open>Sha256\<close>: the parts of Go
    and its standard library the source uses (instants, durations, error chains with \<open>errors.Is\<close>, UTF-8,
    \<open>TrimSpace\<close>, RFC 3339, float64 seconds, the JSON encoder, loggers, base64url, SHA-256).  Strings are byte strings.
  \<^item> \<open>Todo\<close>, \<open>TodoPort\<close>, \<open>Keyset\<close>, \<open>TodoMemory\<close>, \<open>TodoPostgres\<close>, \<open>TodoService\<close>, \<open>TodoUseCases\<close>,
    \<open>TodoAgreement\<close>: \<^verbatim>\<open>todo/\<close>.  The aggregate and its status machine, the contract of the \<open>Repository\<close> port
    (the locale \<open>todo_repository\<close>, interpreted on the in-memory and on the PostgreSQL adapter), keyset pagination,
    the adapters, the use cases, the service object that logs them, and the agreement of the two adapters.
  \<^item> \<open>AuthzCore\<close>, \<open>AuthzEngine\<close>, \<open>AuthzGetter\<close>, \<open>AuthzMiddleware\<close>, \<open>ApiKey\<close>, \<open>TodoAuthz\<close>: \<^verbatim>\<open>authz/\<close>,
    \<^verbatim>\<open>authz/apikey/\<close>, \<^verbatim>\<open>todo/authz/\<close>.  Declarations and principals, construction of the engine, the caching getter
    of one evaluation, the two middlewares, API keys, the todo slice with the shipped policies.
  \<^item> \<open>TodoHttp\<close>: \<^verbatim>\<open>todo/httpapi/\<close>, the operations, handlers, DTOs, cursor tokens and the error translation.
  \<^item> \<open>RateLimit\<close>: \<^verbatim>\<open>ratelimit/\<close>, the limiter with its heap of buckets and its janitor (the locale
    \<open>per_client_limiter\<close>), and the middleware.
  \<^item> \<open>GoHttp\<close>, \<open>Observability\<close>, \<open>HttpMiddleware\<close>, \<open>HttpAdapter\<close>: \<^verbatim>\<open>logctx/\<close>, \<^verbatim>\<open>observability/\<close>, \<^verbatim>\<open>adapter/http/\<close>.
    Handlers on a world with log, metrics and clock, that return or panic; the middleware; the router.
  \<^item> \<open>Config\<close>, \<open>Postgres\<close>, \<open>App\<close>, \<open>Lifecycle\<close>, \<open>Cli\<close>: \<^verbatim>\<open>config/\<close>, \<^verbatim>\<open>adapter/postgres/\<close>, \<^verbatim>\<open>app/\<close>, \<^verbatim>\<open>cli/\<close> and
    \<^verbatim>\<open>cmd/template-go-api/main.go\<close>.  Loading and validating the configuration, opening the pool, migrating,
    wiring the application, running and stopping it, the commands and their exit status.

  \<^bold>\<open>How the code is rendered.\<close>  A struct is a record, a tagged value a datatype, \<open>(T, error)\<close> a sum with the error on
  the left, an error chain a value on which \<open>errors.Is\<close> computes, a map an association list.  State is passed
  explicitly: a store with faults for the database, a heap of buckets for the limiter, a world for HTTP.  A handler
  is a function of request and state; a middleware a function on handlers, and a panic is an outcome of it.
  Concurrency is explicit where it matters: the interleavings of requests on one store are the step relation
  \<open>svc_step\<close>, and \<open>App.Run\<close> with its server goroutines, requests, signals and timer is \<open>run_step\<close>.  The locks of the
  limiter and of the in-memory store make their operations atomic, which is how they are modelled.  Every loop
  of the source recurses on a list, and the waits of \<open>Run\<close> are steps of a relation; the only fuel is that of the
  clients that follow cursors until there is no next one, and it is shown that one unit per stored todo and one
  more is enough for them to stop.

  \<^bold>\<open>What stands outside\<close> is a parameter: the Cedar engine and parser, Huma's decoding of input and its JSON decoder
  for foreign documents, chi's router and utilities, go-chi/cors, promhttp and otelhttp, the OpenTelemetry SDK,
  \<open>golang.org/x/time/rate\<close>, pgx, goose, \<open>google/uuid\<close>, spf13's cast and cobra, the file system, the environment and
  the clock.  Hypotheses about them are named: \<open>env_ok\<close> for the column types and UUIDs,
  \<open>casts_ok\<close> for conversions between equal types, \<open>scope_semantics\<close> for what Cedar decides on policies with a scope only, \<open>run_contract\<close> for the state in which \<open>Run\<close> returns; each
  property that has one comes with a witness at a concrete instance.

  \<^bold>\<open>What is shown.\<close>
  Pagination: a client that follows the cursors sees every todo once, in order, and stops, through the service and
  through HTTP tokens; tokens round-trip, and a token past year 9999 is lost.  Storage: every stored todo stays well
  formed and only moves forward under all interleavings, but the completion time can be overwritten by a race; the
  in-memory store that stands in for PostgreSQL in the tests answers every admissible request sequence alike.
  Authorization: complete mediation, the status and the log line of every refusal, the snapshot semantics of one evaluation, the
  matrix of the shipped policies end to end, and for the assembled server the answer to every request that passes
  the rate limiter, down to the handler and the service it runs.  Rate limiting: refinement of
  independent automata per client, the life of the limiter, the bound on \<open>Retry-After\<close>.  HTTP: the status, log and
  metrics of every outcome including panics and timeouts.  Process: what \<open>New\<close> leaves open on every path, that
  \<open>Run\<close> is bounded, never stuck and returns under fairness, what it releases, and what each command does and exits
  with; a failing server, however, takes the pool away from the other one.

  \<^bold>\<open>Not modelled.\<close>  The mocks (generated), the sqlc boilerplate \<^verbatim>\<open>db.go\<close> and \<^verbatim>\<open>querier.go\<close> (an interface and a
  constructor), the log lines of running and stopping the servers, help texts,
  cancellation of a context in the middle of a query (it shows as a fault of the store), the SQL engine beyond
  the three queries the repository issues, and the integration tests.
\<close>

end
